theory Spec2Isabelle
  imports Main "HOL-Library.Word"
begin

section \<open>JavaScript values used by the proof server and the relayer\<close>

text \<open>
  A Node.js \<open>Buffer\<close> is a sequence of unsigned bytes. JavaScript strings are taken as
  ASCII strings here (addresses, amounts and signatures are hexadecimal or decimal text).
\<close>

type_synonym byte = "8 word"
type_synonym buffer = "byte list"

datatype error =
    SyntaxError
  | EmptyTree
  | LeafNotFound
  | AmountOverflow
  | InvalidIdentity

text \<open>The value of one hexadecimal digit, upper or lower case; \<open>None\<close> for any other character.\<close>

definition hexval :: "char \<Rightarrow> nat option" where
  "hexval c =
     (let n = (of_char c :: nat) in
      if 48 \<le> n \<and> n \<le> 57 then Some (n - 48)
      else if 97 \<le> n \<and> n \<le> 102 then Some (n - 87)
      else if 65 \<le> n \<and> n \<le> 70 then Some (n - 55)
      else None)"

text \<open>
  \<open>Buffer.from(s, 'hex')\<close>: two digits make one byte; decoding stops at the first pair
  that is not hexadecimal, and a trailing single character is dropped.
\<close>

fun Buffer_from_hex :: "string \<Rightarrow> buffer" where
  "Buffer_from_hex (a # b # rest) =
     (case hexval a of
        None \<Rightarrow> []
      | Some x \<Rightarrow>
          (case hexval b of
             None \<Rightarrow> []
           | Some y \<Rightarrow> of_nat (16 * x + y) # Buffer_from_hex rest))"
| "Buffer_from_hex [a] = []"
| "Buffer_from_hex [] = []"

definition hexdigit :: "nat \<Rightarrow> char" where
  "hexdigit d = char_of (if d < 10 then 48 + d else 87 + d)"

text \<open>\<open>n.toString(16)\<close> of a non-negative BigInt: lower-case digits, no leading zero.\<close>

fun hex_digits :: "nat \<Rightarrow> string" where
  "hex_digits n =
     (if n < 16 then [hexdigit n] else hex_digits (n div 16) @ [hexdigit (n mod 16)])"

declare hex_digits.simps [simp del]

text \<open>\<open>bn.toString(16)\<close> of any BigInt: a negative value prints a minus sign first.\<close>

definition toString16 :: "int \<Rightarrow> string" where
  "toString16 bn =
     (if bn < 0 then CHR ''-'' # hex_digits (nat (- bn)) else hex_digits (nat bn))"

text \<open>\<open>s.padStart(n, c)\<close> with a one-character filler: longer strings are left as they are.\<close>

definition padStart :: "nat \<Rightarrow> char \<Rightarrow> string \<Rightarrow> string" where
  "padStart n c s = replicate (n - length s) c @ s"

text \<open>\<open>s.replace(/^0x/, '')\<close>.\<close>

fun strip_0x :: "string \<Rightarrow> string" where
  "strip_0x (a # b # rest) = (if a = CHR ''0'' \<and> b = CHR ''x'' then rest else a # b # rest)"
| "strip_0x s = s"

definition lower_char :: "char \<Rightarrow> char" where
  "lower_char c =
     (let n = (of_char c :: nat) in if 65 \<le> n \<and> n \<le> 90 then char_of (n + 32) else c)"

definition toLowerCase :: "string \<Rightarrow> string" where
  "toLowerCase s = map lower_char s"

section \<open>Leaf encoding (proof server)\<close>

text \<open>
  \<open>encodeLeaf(addr, amount)\<close> of the proof server. \<open>BigInt\<close> is the language's own
  conversion of a string to an integer and is a parameter: \<open>None\<close> where it throws a
  \<open>SyntaxError\<close>. The function has no other way to fail.
\<close>

definition encodeLeaf :: "(string \<Rightarrow> int option) \<Rightarrow> string \<Rightarrow> string \<Rightarrow> error + buffer" where
  "encodeLeaf BigInt addr amount =
     (let addrBuf = Buffer_from_hex (padStart 40 (CHR ''0'') (strip_0x addr)) in
      case BigInt amount of
        None \<Rightarrow> Inl SyntaxError
      | Some bn \<Rightarrow>
          (let amountHex = padStart 64 (CHR ''0'') (toString16 bn);
               amountBuf = Buffer_from_hex amountHex
           in Inr (addrBuf @ amountBuf)))"

text \<open>
  The fixed-width big-endian form of an unsigned integer: \<open>k\<close> bytes, most significant
  first. This is the reference the encoder is compared with.
\<close>

fun be_bytes :: "nat \<Rightarrow> nat \<Rightarrow> buffer" where
  "be_bytes 0 n = []"
| "be_bytes (Suc k) n = be_bytes k (n div 256) @ [of_nat (n mod 256)]"

text \<open>The last \<open>k\<close> hexadecimal digits of \<open>n\<close>, most significant first.\<close>

fun fixed_hex :: "nat \<Rightarrow> nat \<Rightarrow> string" where
  "fixed_hex 0 n = []"
| "fixed_hex (Suc k) n = fixed_hex k (n div 16) @ [hexdigit (n mod 16)]"

record entry =
  address :: string
  amount :: string

text \<open>
  \<open>whitelist.map(e => keccak256(encodeLeaf(e.address.toLowerCase(), e.amount)))\<close>:
  an exception in any element aborts the whole map. The hash function is a parameter.
\<close>

fun leaves :: "(buffer \<Rightarrow> buffer) \<Rightarrow> (string \<Rightarrow> int option) \<Rightarrow> entry list \<Rightarrow> error + buffer list" where
  "leaves keccak256 BigInt [] = Inr []"
| "leaves keccak256 BigInt (e # es) =
     (case encodeLeaf BigInt (toLowerCase (address e)) (amount e) of
        Inl err \<Rightarrow> Inl err
      | Inr packed \<Rightarrow>
          (case leaves keccak256 BigInt es of
             Inl err \<Rightarrow> Inl err
           | Inr ls \<Rightarrow> Inr (keccak256 packed # ls)))"

section \<open>Merkle tree and proof verification\<close>

text \<open>Lexicographic order on byte sequences, a proper prefix first.\<close>

fun buffer_le :: "buffer \<Rightarrow> buffer \<Rightarrow> bool" where
  "buffer_le [] ys = True"
| "buffer_le (x # xs) [] = False"
| "buffer_le (x # xs) (y # ys) = (if x < y then True else if y < x then False else buffer_le xs ys)"

text \<open>
  Modelled from the spec: the pair rule of the tree library and of the contract's
  \<open>MerkleProof\<close> library, neither of which is among the sources. "At every level, the
  pair of child hashes is sorted (e.g., lexicographically) before concatenation and
  hashing."
\<close>

definition hashPair :: "(buffer \<Rightarrow> buffer) \<Rightarrow> buffer \<Rightarrow> buffer \<Rightarrow> buffer" where
  "hashPair H a b = (if buffer_le a b then H (a @ b) else H (b @ a))"

text \<open>
  Modelled from the spec: one level of the tree library's construction. Neighbours are
  paired from the left; "the unpaired node is carried up unmodified to the next level
  (no duplication)".
\<close>

fun nextLayer :: "(buffer \<Rightarrow> buffer) \<Rightarrow> buffer list \<Rightarrow> buffer list" where
  "nextLayer H (a # b # rest) = hashPair H a b # nextLayer H rest"
| "nextLayer H [a] = [a]"
| "nextLayer H [] = []"

text \<open>
  Modelled from the spec: all levels of the tree library's tree, leaves first, up to
  the level that holds a single node.
\<close>

function layers_from :: "(buffer \<Rightarrow> buffer) \<Rightarrow> buffer list \<Rightarrow> buffer list list" where
  "layers_from H nodes =
     (if length nodes \<le> 1 then [nodes] else nodes # layers_from H (nextLayer H nodes))"
  by pat_completeness auto
termination
proof (relation "measure (\<lambda>(H, nodes). length nodes)")
  show "wf (measure (\<lambda>(H, nodes). length nodes))"
    by simp
next
  fix H :: "buffer \<Rightarrow> buffer" and nodes :: "buffer list"
  assume big: "\<not> length nodes \<le> 1"
  have shrink: "length (nextLayer H xs) = (length xs + 1) div 2" for xs
    by (induction H xs rule: nextLayer.induct) simp_all
  from big show "((H, nextLayer H nodes), (H, nodes)) \<in> measure (\<lambda>(H, nodes). length nodes)"
    by (simp add: shrink)
qed

declare layers_from.simps [simp del]

record merkle_tree =
  tree_leaves :: "buffer list"
  tree_layers :: "buffer list list"

text \<open>
  Modelled from the spec: the tree library's constructor, \<open>build\<close> of the spec. "Fails
  with \<open>EmptyTree\<close> if given zero leaves."
\<close>

definition MerkleTree :: "(buffer \<Rightarrow> buffer) \<Rightarrow> buffer list \<Rightarrow> error + merkle_tree" where
  "MerkleTree H ls =
     (if ls = [] then Inl EmptyTree
      else Inr \<lparr>tree_leaves = ls, tree_layers = layers_from H ls\<rparr>)"

text \<open>Modelled from the spec: the root is the single node of the top level.\<close>

definition getRoot :: "merkle_tree \<Rightarrow> buffer" where
  "getRoot t = hd (last (tree_layers t))"

text \<open>
  Modelled from the spec: the "ordered sequence of sibling hashes from leaf to root"
  for the node at position \<open>i\<close> of the lowest level given. A node that was carried up
  has no sibling at that level and contributes nothing.
\<close>

fun proof_path :: "buffer list list \<Rightarrow> nat \<Rightarrow> buffer list" where
  "proof_path [] i = []"
| "proof_path (layer # upper) i =
     (let pairIndex = (if odd i then i - 1 else i + 1) in
      (if pairIndex < length layer then [layer ! pairIndex] else [])
        @ proof_path upper (i div 2))"

fun index_of :: "'a \<Rightarrow> 'a list \<Rightarrow> nat option" where
  "index_of x [] = None"
| "index_of x (y # ys) =
     (if x = y then Some 0 else (case index_of x ys of None \<Rightarrow> None | Some i \<Rightarrow> Some (Suc i)))"

text \<open>
  Modelled from the spec: the tree library's proof for a leaf digest, \<open>proveLeaf\<close> of
  the spec, which "fails with \<open>LeafNotFound\<close> if the given (identity, amount) does not
  correspond to any indexed leaf".
\<close>

definition getProof :: "merkle_tree \<Rightarrow> buffer \<Rightarrow> error + buffer list" where
  "getProof t leaf =
     (case index_of leaf (tree_leaves t) of
        None \<Rightarrow> Inl LeafNotFound
      | Some i \<Rightarrow> Inr (proof_path (tree_layers t) i))"

text \<open>
  Modelled from the spec: \<open>MerkleProof.verify(proof, root, leaf)\<close> of the contract's
  library. It "folds the proof by repeatedly sorting {accumulator, next sibling} and
  hashing, from leaf toward root; succeeds iff final accumulator equals root".
\<close>

fun processProof :: "(buffer \<Rightarrow> buffer) \<Rightarrow> buffer list \<Rightarrow> buffer \<Rightarrow> buffer" where
  "processProof H [] computed = computed"
| "processProof H (sibling # rest) computed = processProof H rest (hashPair H computed sibling)"

definition MerkleProof_verify :: "(buffer \<Rightarrow> buffer) \<Rightarrow> buffer list \<Rightarrow> buffer \<Rightarrow> buffer \<Rightarrow> bool" where
  "MerkleProof_verify H prf root leaf = (processProof H prf leaf = root)"

section \<open>Proof server\<close>

text \<open>
  The module-level state of the proof server: the whitelist read at start, the tree
  over its leaves and the root. Starting fails when a leaf cannot be encoded or the
  tree cannot be built. Roots and proofs are kept as buffers; their rendering as
  \<open>0x\<close> strings is not modelled.
\<close>

record proof_server =
  whitelist :: "entry list"
  tree :: merkle_tree
  root :: buffer

definition start_server ::
  "(buffer \<Rightarrow> buffer) \<Rightarrow> (string \<Rightarrow> int option) \<Rightarrow> entry list \<Rightarrow> error + proof_server" where
  "start_server keccak256 BigInt wl =
     (case leaves keccak256 BigInt wl of
        Inl err \<Rightarrow> Inl err
      | Inr ls \<Rightarrow>
          (case MerkleTree keccak256 ls of
             Inl err \<Rightarrow> Inl err
           | Inr t \<Rightarrow> Inr \<lparr>whitelist = wl, tree = t, root = getRoot t\<rparr>))"

datatype proof_response =
    NotFound404
  | ProofJson string string "buffer list" buffer buffer
  | ServerError500 error

text \<open>
  \<open>GET /proof/:address/:amount\<close>. The answer \<open>ProofJson addr amt prf leaf root\<close> carries
  the fields of the JSON body in the order of the source.
\<close>

definition get_proof ::
  "(buffer \<Rightarrow> buffer) \<Rightarrow> (string \<Rightarrow> int option) \<Rightarrow> proof_server \<Rightarrow> string \<Rightarrow> string
     \<Rightarrow> proof_response" where
  "get_proof keccak256 BigInt srv address_param amount_param =
     (let addr = toLowerCase address_param; amt = amount_param in
      case find (\<lambda>e. toLowerCase (address e) = addr \<and> amount e = amt) (whitelist srv) of
        None \<Rightarrow> NotFound404
      | Some found \<Rightarrow>
          (case encodeLeaf BigInt addr amt of
             Inl err \<Rightarrow> ServerError500 err
           | Inr packed \<Rightarrow>
               (let leaf = keccak256 packed in
                case getProof (tree srv) leaf of
                  Inl err \<Rightarrow> ServerError500 err
                | Inr prf \<Rightarrow> ProofJson addr amt prf leaf (root srv))))"

section \<open>The Airdrop contract\<close>

type_synonym eth_address = "160 word"
type_synonym uint256 = "256 word"

datatype log_event = Claimed eth_address uint256

record airdrop =
  merkleRoot :: buffer
  claimed :: "eth_address \<Rightarrow> bool"
  owner :: eth_address
  emitted :: "log_event list"

text \<open>\<open>abi.encodePacked(address, uint256)\<close>: 20 bytes, then 32 bytes, both big-endian.\<close>

definition abi_encodePacked :: "eth_address \<Rightarrow> uint256 \<Rightarrow> buffer" where
  "abi_encodePacked a v = be_bytes 20 (unat a) @ be_bytes 32 (unat v)"

definition deploy :: "eth_address \<Rightarrow> buffer \<Rightarrow> airdrop" where
  "deploy deployer r = \<lparr>merkleRoot = r, claimed = (\<lambda>a. False), owner = deployer, emitted = []\<rparr>"

text \<open>A call either reverts with a message (\<open>Inl\<close>) or returns the new contract state.\<close>

definition setMerkleRoot :: "airdrop \<Rightarrow> eth_address \<Rightarrow> buffer \<Rightarrow> string + airdrop" where
  "setMerkleRoot c sender r =
     (if sender \<noteq> owner c then Inl ''Ownable: caller is not the owner''
      else Inr (c\<lparr>merkleRoot := r\<rparr>))"

definition claim ::
  "(buffer \<Rightarrow> buffer) \<Rightarrow> airdrop \<Rightarrow> eth_address \<Rightarrow> uint256 \<Rightarrow> buffer list \<Rightarrow> string + airdrop" where
  "claim keccak256 c sender amt prf =
     (if claimed c sender then Inl ''Already claimed''
      else
        (let leaf = keccak256 (abi_encodePacked sender amt) in
         if \<not> MerkleProof_verify keccak256 prf (merkleRoot c) leaf then Inl ''Invalid proof''
         else Inr (c\<lparr>claimed := (claimed c)(sender := True),
                     emitted := emitted c @ [Claimed sender amt]\<rparr>)))"

text \<open>
  Transactions sent to the contract, each with its sender. A reverted transaction
  leaves the state as it was.
\<close>

datatype transaction =
    Claim eth_address uint256 "buffer list"
  | SetMerkleRoot eth_address buffer

fun call :: "(buffer \<Rightarrow> buffer) \<Rightarrow> airdrop \<Rightarrow> transaction \<Rightarrow> string + airdrop" where
  "call keccak256 c (Claim sender amt prf) = claim keccak256 c sender amt prf"
| "call keccak256 c (SetMerkleRoot sender r) = setMerkleRoot c sender r"

fun execute :: "(buffer \<Rightarrow> buffer) \<Rightarrow> airdrop \<Rightarrow> transaction list \<Rightarrow> airdrop" where
  "execute keccak256 c [] = c"
| "execute keccak256 c (t # ts) =
     (case call keccak256 c t of
        Inl msg \<Rightarrow> execute keccak256 c ts
      | Inr c' \<Rightarrow> execute keccak256 c' ts)"

text \<open>The \<open>Claimed\<close> events of one account in a log.\<close>

fun events_of :: "eth_address \<Rightarrow> log_event list \<Rightarrow> log_event list" where
  "events_of a [] = []"
| "events_of a (Claimed b v # es) = (if a = b then Claimed b v # events_of a es else events_of a es)"

section \<open>Relayer\<close>

text \<open>
  The fields of a request body are JSON values. Numbers are restricted to the
  integers, which is what the fields of a claim request hold. An array or object
  carries the identity it got when the body was parsed: two parsed bodies never share
  one, and \<open>Set\<close> membership compares arrays and objects by that identity.
\<close>

datatype jsval =
    JUndefined
  | JNull
  | JBool bool
  | JNum int
  | JStr string
  | JArray nat "jsval list"
  | JObject nat "(string \<times> jsval) list"

fun truthy :: "jsval \<Rightarrow> bool" where
  "truthy JUndefined = False"
| "truthy JNull = False"
| "truthy (JBool b) = b"
| "truthy (JNum n) = (n \<noteq> 0)"
| "truthy (JStr s) = (s \<noteq> [])"
| "truthy (JArray a xs) = True"
| "truthy (JObject a ms) = True"

record claim_request =
  recipient :: jsval
  claim_amount :: jsval
  nonce :: jsval
  deadline :: jsval
  signature :: jsval

text \<open>
  The body the proof server answers with: \<open>ProofField\<close> carries the \<open>proof\<close> array (an
  array is truthy, also when empty); \<open>NoProofField\<close> is a body whose \<open>proof\<close> member is
  absent or falsy.
\<close>

datatype proof_data = NoProofField | ProofField "string list"

text \<open>
  What the outside world answers while one request is handled: the clock in
  milliseconds, read for the deadline check and read again for the timestamp of the
  pending entry, the language's conversions between strings and numbers (\<open>None\<close> for
  \<open>NaN\<close>), the two functions of the signature library, the two contract calls, the
  \<open>try\<close> block of \<open>getProofFromServer\<close> (building the URL and the GET), and whether
  \<open>tx.wait()\<close> resolves for a transaction hash. A call that throws or rejects is \<open>Inl\<close>
  with its message.
\<close>

record world =
  Date_now :: int
  Date_now_stored :: int
  StringToNumber :: "string \<Rightarrow> int option"
  NumberToString :: "int \<Rightarrow> string"
  TypedDataEncoder_hash :: "jsval \<times> jsval \<times> jsval \<times> jsval \<Rightarrow> buffer option"
  recoverAddress :: "buffer \<Rightarrow> jsval \<Rightarrow> string option"
  contract_claimed :: "jsval \<Rightarrow> string + bool"
  axios_get :: "jsval \<Rightarrow> jsval \<Rightarrow> string + proof_data"
  contract_claim :: "jsval \<Rightarrow> string list \<Rightarrow> string + string"
  tx_wait :: "string \<Rightarrow> bool"

text \<open>
  The language's conversion of a value to a string. A parsed object has no callable
  \<open>toString\<close> of its own: when it has a member of that name, the inherited one is
  hidden, neither \<open>toString\<close> nor \<open>valueOf\<close> yields a primitive, and the conversion
  throws a \<open>TypeError\<close>; otherwise the inherited \<open>toString\<close> answers. An array joins the
  strings of its elements with commas, \<open>undefined\<close> and \<open>null\<close> giving the empty string.
\<close>

fun ToString :: "(int \<Rightarrow> string) \<Rightarrow> jsval \<Rightarrow> string + string"
  and join :: "(int \<Rightarrow> string) \<Rightarrow> jsval list \<Rightarrow> string + string" where
  "ToString N JUndefined = Inr ''undefined''"
| "ToString N JNull = Inr ''null''"
| "ToString N (JBool b) = Inr (if b then ''true'' else ''false'')"
| "ToString N (JNum n) = Inr (N n)"
| "ToString N (JStr s) = Inr s"
| "ToString N (JArray a xs) = join N xs"
| "ToString N (JObject a ms) =
     (if ''toString'' \<in> set (map fst ms)
      then Inl ''Cannot convert object to primitive value''
      else Inr ''[object Object]'')"
| "join N [] = Inr []"
| "join N (x # xs) =
     (case (if x = JUndefined \<or> x = JNull then Inr [] else ToString N x) of
        Inl msg \<Rightarrow> Inl msg
      | Inr s \<Rightarrow>
          (if xs = [] then Inr s
           else (case join N xs of
                   Inl msg \<Rightarrow> Inl msg
                 | Inr t \<Rightarrow> Inr (s @ '','' @ t))))"

text \<open>
  The language's conversion of a value to a number: an array or object is first
  converted to a primitive, which for a parsed value is its string or the \<open>TypeError\<close>.
\<close>

fun ToNumber :: "(int \<Rightarrow> string) \<Rightarrow> (string \<Rightarrow> int option) \<Rightarrow> jsval \<Rightarrow> string + int option" where
  "ToNumber N S JUndefined = Inr None"
| "ToNumber N S JNull = Inr (Some 0)"
| "ToNumber N S (JBool b) = Inr (Some (if b then 1 else 0))"
| "ToNumber N S (JNum n) = Inr (Some n)"
| "ToNumber N S (JStr s) = Inr (S s)"
| "ToNumber N S (JArray a xs) =
     (case ToString N (JArray a xs) of Inl msg \<Rightarrow> Inl msg | Inr s \<Rightarrow> Inr (S s))"
| "ToNumber N S (JObject a ms) =
     (case ToString N (JObject a ms) of Inl msg \<Rightarrow> Inl msg | Inr s \<Rightarrow> Inr (S s))"

text \<open>
  \<open>a > v\<close> for a number \<open>a\<close>: false when \<open>v\<close> converts to \<open>NaN\<close>, and the \<open>TypeError\<close>
  of the conversion when \<open>v\<close> has no primitive value.
\<close>

definition number_gt ::
  "(int \<Rightarrow> string) \<Rightarrow> (string \<Rightarrow> int option) \<Rightarrow> int \<Rightarrow> jsval \<Rightarrow> string + bool" where
  "number_gt N S a v =
     (case ToNumber N S v of
        Inl msg \<Rightarrow> Inl msg
      | Inr None \<Rightarrow> Inr False
      | Inr (Some d) \<Rightarrow> Inr (d < a))"

text \<open>
  \<open>verifySignature(message, signature, expectedSigner)\<close>: every exception inside is
  caught and gives \<open>false\<close>, also the one raised by \<open>toLowerCase\<close> on a value that is
  not a string.
\<close>

definition verifySignature :: "world \<Rightarrow> jsval \<times> jsval \<times> jsval \<times> jsval \<Rightarrow> jsval \<Rightarrow> jsval \<Rightarrow> bool" where
  "verifySignature w message sig expectedSigner =
     (case TypedDataEncoder_hash w message of
        None \<Rightarrow> False
      | Some digest \<Rightarrow>
          (case recoverAddress w digest sig of
             None \<Rightarrow> False
           | Some recoveredAddress \<Rightarrow>
               (case expectedSigner of
                  JStr s \<Rightarrow> toLowerCase recoveredAddress = toLowerCase s
                | _ \<Rightarrow> False)))"

definition getProofFromServer :: "world \<Rightarrow> jsval \<Rightarrow> jsval \<Rightarrow> string + proof_data" where
  "getProofFromServer w addr amt =
     (case axios_get w addr amt of
        Inl msg \<Rightarrow> Inl ''Failed to fetch proof from server''
      | Inr response_data \<Rightarrow> Inr response_data)"

record pending_tx =
  pending_recipient :: jsval
  pending_amount :: jsval
  pending_timestamp :: int

record relayer =
  usedNonces :: "jsval set"
  pendingTxs :: "string \<rightharpoonup> pending_tx"

text \<open>The module state when the service starts: an empty set and an empty map.\<close>

definition fresh_relayer :: relayer where
  "fresh_relayer = \<lparr>usedNonces = {}, pendingTxs = Map.empty\<rparr>"

datatype response =
    Status400 string
  | Status500 string string
  | Success string

text \<open>The statements of the handler, in the order in which a run performs them.\<close>

datatype step =
    ValidateFields
  | CheckDeadline
  | CheckNonce
  | VerifySignature
  | CheckClaimed
  | GetProof
  | MarkNonce
  | SubmitTransaction
  | StorePending
  | RemoveNonce

text \<open>
  The result of handling one request: the HTTP answer, the module state afterwards,
  the statements performed, and, after a submission, the transaction hash and nonce
  that the two \<open>tx.wait()\<close> callbacks hold.
\<close>

record result =
  response :: response
  state :: relayer
  steps :: "step list"
  waiting :: "(string \<times> jsval) option"

definition reject :: "relayer \<Rightarrow> string \<Rightarrow> step list \<Rightarrow> result" where
  "reject st msg performed =
     \<lparr>response = Status400 msg, state = st, steps = performed, waiting = None\<rparr>"

text \<open>The \<open>catch\<close> block of the handler.\<close>

definition catch_block :: "relayer \<Rightarrow> claim_request \<Rightarrow> string \<Rightarrow> step list \<Rightarrow> result" where
  "catch_block st body msg performed =
     (if truthy (nonce body)
      then \<lparr>response = Status500 ''Failed to relay transaction'' msg,
            state = st\<lparr>usedNonces := usedNonces st - {nonce body}\<rparr>,
            steps = performed @ [RemoveNonce], waiting = None\<rparr>
      else \<lparr>response = Status500 ''Failed to relay transaction'' msg,
            state = st, steps = performed, waiting = None\<rparr>)"

text \<open>
  \<open>POST /relay-claim\<close>, run from the request to the answer with no other handler in
  between. The log line before the submission builds a string from the recipient and
  the amount, which the \<open>try\<close> block of \<open>getProofFromServer\<close> has built before, so it
  does not throw.
\<close>

definition relay_claim :: "world \<Rightarrow> relayer \<Rightarrow> claim_request \<Rightarrow> result" where
  "relay_claim w st body =
     (if \<not> truthy (recipient body) \<or> \<not> truthy (claim_amount body) \<or> \<not> truthy (nonce body)
          \<or> \<not> truthy (deadline body) \<or> \<not> truthy (signature body)
      then reject st ''Missing required fields: recipient, amount, nonce, deadline, signature''
             [ValidateFields]
      else
        (let currentTime = Date_now w div 1000 in
         case number_gt (NumberToString w) (StringToNumber w) currentTime (deadline body) of
           Inl msg \<Rightarrow> catch_block st body msg [ValidateFields, CheckDeadline]
         | Inr True \<Rightarrow> reject st ''Request expired'' [ValidateFields, CheckDeadline]
         | Inr False \<Rightarrow>
         if nonce body \<in> usedNonces st
         then reject st ''Nonce already used'' [ValidateFields, CheckDeadline, CheckNonce]
         else if \<not> verifySignature w
                     (recipient body, claim_amount body, nonce body, deadline body)
                     (signature body) (recipient body)
         then reject st ''Invalid signature''
                [ValidateFields, CheckDeadline, CheckNonce, VerifySignature]
         else
           (case contract_claimed w (recipient body) of
              Inl msg \<Rightarrow>
                catch_block st body msg
                  [ValidateFields, CheckDeadline, CheckNonce, VerifySignature, CheckClaimed]
            | Inr alreadyClaimed \<Rightarrow>
                if alreadyClaimed
                then reject st ''Already claimed''
                       [ValidateFields, CheckDeadline, CheckNonce, VerifySignature, CheckClaimed]
                else
                  (case getProofFromServer w (recipient body) (claim_amount body) of
                     Inl msg \<Rightarrow>
                       catch_block st body msg
                         [ValidateFields, CheckDeadline, CheckNonce, VerifySignature,
                          CheckClaimed, GetProof]
                   | Inr NoProofField \<Rightarrow>
                       reject st ''Invalid proof or not eligible''
                         [ValidateFields, CheckDeadline, CheckNonce, VerifySignature,
                          CheckClaimed, GetProof]
                   | Inr (ProofField prf) \<Rightarrow>
                       (let st1 = st\<lparr>usedNonces := insert (nonce body) (usedNonces st)\<rparr> in
                        case contract_claim w (claim_amount body) prf of
                          Inl msg \<Rightarrow>
                            catch_block st1 body msg
                              [ValidateFields, CheckDeadline, CheckNonce, VerifySignature,
                               CheckClaimed, GetProof, MarkNonce, SubmitTransaction]
                        | Inr txHash \<Rightarrow>
                            \<lparr>response = Success txHash,
                             state = st1\<lparr>pendingTxs := (pendingTxs st1)(txHash \<mapsto>
                                 \<lparr>pending_recipient = recipient body,
                                  pending_amount = claim_amount body,
                                  pending_timestamp = Date_now_stored w\<rparr>)\<rparr>,
                             steps =
                               [ValidateFields, CheckDeadline, CheckNonce, VerifySignature,
                                CheckClaimed, GetProof, MarkNonce, SubmitTransaction,
                                StorePending],
                             waiting = Some (txHash, nonce body)\<rparr>)))))"

text \<open>Names for the checks the handler makes before it calls anyone else.\<close>

abbreviation fields_present :: "claim_request \<Rightarrow> bool" where
  "fields_present body \<equiv>
     truthy (recipient body) \<and> truthy (claim_amount body) \<and> truthy (nonce body)
     \<and> truthy (deadline body) \<and> truthy (signature body)"

abbreviation deadline_check :: "world \<Rightarrow> claim_request \<Rightarrow> string + bool" where
  "deadline_check w body \<equiv>
     number_gt (NumberToString w) (StringToNumber w) (Date_now w div 1000) (deadline body)"


abbreviation in_time :: "world \<Rightarrow> claim_request \<Rightarrow> bool" where
  "in_time w body \<equiv> deadline_check w body = Inr False"

abbreviation signature_ok :: "world \<Rightarrow> claim_request \<Rightarrow> bool" where
  "signature_ok w body \<equiv>
     verifySignature w (recipient body, claim_amount body, nonce body, deadline body)
       (signature body) (recipient body)"

abbreviation local_checks_pass :: "world \<Rightarrow> relayer \<Rightarrow> claim_request \<Rightarrow> bool" where
  "local_checks_pass w st body \<equiv>
     fields_present body \<and> in_time w body \<and> nonce body \<notin> usedNonces st
     \<and> signature_ok w body"

text \<open>The two callbacks registered on \<open>tx.wait()\<close>, for the hash and nonce they hold.\<close>

definition tx_confirmed :: "relayer \<Rightarrow> string \<times> jsval \<Rightarrow> relayer" where
  "tx_confirmed st held = st\<lparr>pendingTxs := (pendingTxs st)(fst held := None)\<rparr>"

definition tx_failed :: "relayer \<Rightarrow> string \<times> jsval \<Rightarrow> relayer" where
  "tx_failed st held =
     st\<lparr>pendingTxs := (pendingTxs st)(fst held := None),
        usedNonces := usedNonces st - {snd held}\<rparr>"

subsection \<open>Handlers that interleave\<close>

text \<open>
  The handler is asynchronous: it runs without interruption up to an \<open>await\<close>, and
  while it waits other handlers run on the same module state. A handler waits for the
  answer of \<open>contract.claimed\<close>, for the proof server, for \<open>contract.claim\<close> (holding the
  proof) or for \<open>tx.wait()\<close> (holding the transaction hash).
\<close>

datatype awaiting =
    AwaitClaimed
  | AwaitProof
  | AwaitSubmit "string list"
  | AwaitReceipt string

text \<open>
  One uninterrupted stretch of a handler gives the module state after it, the
  \<open>await\<close> it stops at (\<open>None\<close> when the handler has ended) and the HTTP answer, if it
  was sent in this stretch.
\<close>

type_synonym stretch = "relayer \<times> awaiting option \<times> response option"

definition answered :: "relayer \<Rightarrow> response \<Rightarrow> stretch" where
  "answered st r = (st, None, Some r)"

definition caught :: "relayer \<Rightarrow> claim_request \<Rightarrow> string \<Rightarrow> stretch" where
  "caught st body msg =
     answered (state (catch_block st body msg [])) (response (catch_block st body msg []))"

text \<open>From the arrival of the request to the call of \<open>contract.claimed\<close>.\<close>

definition arrive :: "world \<Rightarrow> relayer \<Rightarrow> claim_request \<Rightarrow> stretch" where
  "arrive w st body =
     (if \<not> truthy (recipient body) \<or> \<not> truthy (claim_amount body) \<or> \<not> truthy (nonce body)
          \<or> \<not> truthy (deadline body) \<or> \<not> truthy (signature body)
      then answered st
             (Status400 ''Missing required fields: recipient, amount, nonce, deadline, signature'')
      else
        (let currentTime = Date_now w div 1000 in
         case number_gt (NumberToString w) (StringToNumber w) currentTime (deadline body) of
           Inl msg \<Rightarrow> caught st body msg
         | Inr True \<Rightarrow> answered st (Status400 ''Request expired'')
         | Inr False \<Rightarrow>
         if nonce body \<in> usedNonces st
         then answered st (Status400 ''Nonce already used'')
         else if \<not> verifySignature w
                     (recipient body, claim_amount body, nonce body, deadline body)
                     (signature body) (recipient body)
         then answered st (Status400 ''Invalid signature'')
         else (st, Some AwaitClaimed, None)))"

text \<open>From the answer a handler waited for to its next \<open>await\<close> or its end.\<close>

fun resume :: "world \<Rightarrow> relayer \<Rightarrow> claim_request \<Rightarrow> awaiting \<Rightarrow> stretch" where
  "resume w st body AwaitClaimed =
     (case contract_claimed w (recipient body) of
        Inl msg \<Rightarrow> caught st body msg
      | Inr alreadyClaimed \<Rightarrow>
          if alreadyClaimed then answered st (Status400 ''Already claimed'')
          else (st, Some AwaitProof, None))"
| "resume w st body AwaitProof =
     (case getProofFromServer w (recipient body) (claim_amount body) of
        Inl msg \<Rightarrow> caught st body msg
      | Inr NoProofField \<Rightarrow> answered st (Status400 ''Invalid proof or not eligible'')
      | Inr (ProofField prf) \<Rightarrow>
          (st\<lparr>usedNonces := insert (nonce body) (usedNonces st)\<rparr>, Some (AwaitSubmit prf), None))"
| "resume w st body (AwaitSubmit prf) =
     (case contract_claim w (claim_amount body) prf of
        Inl msg \<Rightarrow> caught st body msg
      | Inr txHash \<Rightarrow>
          (st\<lparr>pendingTxs := (pendingTxs st)(txHash \<mapsto>
               \<lparr>pending_recipient = recipient body,
                pending_amount = claim_amount body,
                pending_timestamp = Date_now_stored w\<rparr>)\<rparr>,
           Some (AwaitReceipt txHash), Some (Success txHash)))"
| "resume w st body (AwaitReceipt txHash) =
     (if tx_wait w txHash then (tx_confirmed st (txHash, nonce body), None, None)
      else (tx_failed st (txHash, nonce body), None, None))"

text \<open>
  The service over time: the module state, the handlers that wait, each with the
  world that answers it, and the HTTP answers sent so far. A request arrives, or the
  answer that the handler at some position waits for arrives. An event that names no
  waiting handler does nothing.
\<close>

record suspended_handler =
  handler_world :: world
  handler_body :: claim_request
  handler_at :: awaiting

record service =
  relay :: relayer
  handlers :: "suspended_handler list"
  replies :: "response list"

datatype event =
    Arrive world claim_request
  | Resume nat

definition service_start :: service where
  "service_start = \<lparr>relay = fresh_relayer, handlers = [], replies = []\<rparr>"

fun occur :: "service \<Rightarrow> event \<Rightarrow> service" where
  "occur s (Arrive w body) =
     (case arrive w (relay s) body of
        (st, pause, sent) \<Rightarrow>
          s\<lparr>relay := st,
            handlers := handlers s
              @ (case pause of None \<Rightarrow> []
                 | Some a \<Rightarrow> [\<lparr>handler_world = w, handler_body = body, handler_at = a\<rparr>]),
            replies := replies s @ (case sent of None \<Rightarrow> [] | Some r \<Rightarrow> [r])\<rparr>)"
| "occur s (Resume i) =
     (if i < length (handlers s)
      then
        (let t = handlers s ! i in
         case resume (handler_world t) (relay s) (handler_body t) (handler_at t) of
           (st, pause, sent) \<Rightarrow>
             s\<lparr>relay := st,
               handlers :=
                 (case pause of
                    None \<Rightarrow> take i (handlers s) @ drop (Suc i) (handlers s)
                  | Some a \<Rightarrow> (handlers s)[i := t\<lparr>handler_at := a\<rparr>]),
               replies := replies s @ (case sent of None \<Rightarrow> [] | Some r \<Rightarrow> [r])\<rparr>)
      else s)"

fun run :: "service \<Rightarrow> event list \<Rightarrow> service" where
  "run s [] = s"
| "run s (e # es) = run (occur s e) es"

text \<open>
  A handler run through its stretches with nothing in between, up to the stretch that
  sends the answer.
\<close>

definition uninterrupted :: "world \<Rightarrow> relayer \<Rightarrow> claim_request \<Rightarrow> relayer \<times> response option" where
  "uninterrupted w st body =
     (case arrive w st body of
        (st1, None, sent) \<Rightarrow> (st1, sent)
      | (st1, Some a1, sent) \<Rightarrow>
          (case resume w st1 body a1 of
             (st2, None, sent) \<Rightarrow> (st2, sent)
           | (st2, Some a2, sent) \<Rightarrow>
               (case resume w st2 body a2 of
                  (st3, None, sent) \<Rightarrow> (st3, sent)
                | (st3, Some a3, sent) \<Rightarrow>
                    (case resume w st3 body a3 of (st4, pause, sent) \<Rightarrow> (st4, sent)))))"

section \<open>Concrete instances\<close>

text \<open>
  The statements below hold for every hash function and every integer parser. The
  examples run them on a small checksum in place of the hash, on a parser of plain
  decimal strings, and on the default whitelist of the deployment script.
\<close>

definition sample_hash :: "buffer \<Rightarrow> buffer" where
  "sample_hash bs = [of_nat (length bs), fold (\<lambda>b acc. 3 * acc + b + 1) bs 7]"

definition digitval :: "char \<Rightarrow> nat option" where
  "digitval c =
     (let n = (of_char c :: nat) in if 48 \<le> n \<and> n \<le> 57 then Some (n - 48) else None)"

fun decimal_value :: "nat \<Rightarrow> string \<Rightarrow> nat option" where
  "decimal_value acc [] = Some acc"
| "decimal_value acc (c # cs) =
     (case digitval c of None \<Rightarrow> None | Some d \<Rightarrow> decimal_value (10 * acc + d) cs)"

definition decimal_BigInt :: "string \<Rightarrow> int option" where
  "decimal_BigInt s = map_option int (decimal_value 0 s)"

definition default_whitelist :: "entry list" where
  "default_whitelist =
     [\<lparr>address = ''0x70997970C51812dc3A010C7d01b50e0d17dc79C8'', amount = ''100''\<rparr>,
      \<lparr>address = ''0x3C44CdDdB6a900fa2b585dd299e03d12FA4293BC'', amount = ''50''\<rparr>,
      \<lparr>address = ''0x90F79bf6EB2c4f870365E785982E1f101E93b906'', amount = ''200''\<rparr>]"

text \<open>
  The decimal form of an integer, for the worlds of the examples.
\<close>

fun decimal_digits :: "nat \<Rightarrow> string" where
  "decimal_digits n =
     (if n < 10 then [char_of (48 + n)]
      else decimal_digits (n div 10) @ [char_of (48 + n mod 10)])"

declare decimal_digits.simps [simp del]

definition decimal_string :: "int \<Rightarrow> string" where
  "decimal_string i =
     (if i < 0 then CHR ''-'' # decimal_digits (nat (- i)) else decimal_digits (nat i))"

text \<open>
  A world in which every check of the relayer passes, the submission returns a
  transaction hash and the transaction is confirmed; a well-formed request; and
  variants of both.
\<close>

definition sample_world :: world where
  "sample_world =
     \<lparr>Date_now = 1700000000500,
      Date_now_stored = 1700000000600,
      StringToNumber = decimal_BigInt,
      NumberToString = decimal_string,
      TypedDataEncoder_hash = (\<lambda>message. Some [1, 2, 3]),
      recoverAddress = (\<lambda>digest sig. Some ''0x70997970c51812dc3a010c7d01b50e0d17dc79c8''),
      contract_claimed = (\<lambda>account. Inr False),
      axios_get = (\<lambda>addr amt. Inr (ProofField [''0xaa'', ''0xbb''])),
      contract_claim = (\<lambda>amt prf. Inr ''0xtx1''),
      tx_wait = (\<lambda>txHash. True)\<rparr>"

definition world_already_claimed :: world where
  "world_already_claimed =
     sample_world\<lparr>contract_claimed := (\<lambda>account. Inr True),
                  axios_get := (\<lambda>addr amt. Inl ''Request failed with status code 404'')\<rparr>"

definition world_expired :: world where
  "world_expired = sample_world\<lparr>Date_now := 1700003601000\<rparr>"

text \<open>The clock 999 milliseconds after the deadline of the sample request.\<close>

definition world_boundary :: world where
  "world_boundary = sample_world\<lparr>Date_now := 1700003600999\<rparr>"






text \<open>A world whose submission returns another hash and whose transaction fails.\<close>

definition world_second :: world where
  "world_second =
     sample_world\<lparr>contract_claim := (\<lambda>amt prf. Inr ''0xtx2''), tx_wait := (\<lambda>txHash. False)\<rparr>"

definition sample_request :: claim_request where
  "sample_request =
     \<lparr>recipient = JStr ''0x70997970c51812dc3a010c7d01b50e0d17dc79c8'',
      claim_amount = JStr ''100'',
      nonce = JNum 7,
      deadline = JNum 1700003600,
      signature = JStr ''0x1b''\<rparr>"

text \<open>
  A request with the same nonce, no valid signature, and for its deadline the JSON
  object \<open>{"valueOf": 0, "toString": 0}\<close>.
\<close>

definition malformed_request :: claim_request where
  "malformed_request =
     \<lparr>recipient = JStr ''x'',
      claim_amount = JNum 1,
      nonce = JNum 7,
      deadline = JObject 1 [(''valueOf'', JNum 0), (''toString'', JNum 0)],
      signature = JStr ''x''\<rparr>"


text \<open>
  Two histories of the service. In the first a request is handled to the end and its
  transaction is confirmed. In the second the same request arrives twice before either
  handler has marked the nonce, and both handlers run to their submission.
\<close>

definition confirmed_history :: "event list" where
  "confirmed_history =
     [Arrive sample_world sample_request, Resume 0, Resume 0, Resume 0, Resume 0]"

definition double_history :: "event list" where
  "double_history =
     [Arrive sample_world sample_request, Arrive world_second sample_request,
      Resume 0, Resume 0, Resume 0,
      Resume (Suc 0), Resume (Suc 0), Resume (Suc 0)]"

section \<open>Properties of the tree construction\<close>


lemma buffer_le_total: "\<not> buffer_le a b \<Longrightarrow> buffer_le b a"
  by (induction a b rule: buffer_le.induct) (auto split: if_splits)

lemma buffer_le_antisym: "buffer_le a b \<Longrightarrow> buffer_le b a \<Longrightarrow> a = b"
proof (induction a b rule: buffer_le.induct)
  case (1 ys)
  then show ?case by (cases ys) simp_all
next
  case (2 x xs)
  then show ?case by simp
next
  case (3 x xs y ys)
  then show ?case by (auto split: if_splits)
qed

lemma hashPair_commute: "hashPair H a b = hashPair H b a"
  using buffer_le_total [of a b] buffer_le_antisym [of a b]
  by (auto simp: hashPair_def)

lemma length_nextLayer: "length (nextLayer H xs) = (length xs + 1) div 2"
  by (induction H xs rule: nextLayer.induct) simp_all

lemma nextLayer_nth_even:
  "even i \<Longrightarrow> i < length xs \<Longrightarrow>
   nextLayer H xs ! (i div 2) = (if i + 1 < length xs then hashPair H (xs ! i) (xs ! (i + 1)) else xs ! i)"
proof (induction H xs arbitrary: i rule: nextLayer.induct)
  case (1 H a b rest)
  show ?case
  proof (cases i)
    case 0
    then show ?thesis by simp
  next
    case (Suc j)
    with "1.prems" obtain k where k: "i = Suc (Suc k)" "even k" "k < length rest"
      by (cases j) auto
    with "1.IH" [of k] show ?thesis by simp
  qed
next
  case (2 H a)
  then show ?case by simp
next
  case (3 H)
  then show ?case by simp
qed

lemma nextLayer_nth_odd:
  "odd i \<Longrightarrow> i < length xs \<Longrightarrow>
   nextLayer H xs ! (i div 2) = hashPair H (xs ! (i - 1)) (xs ! i)"
proof -
  assume o: "odd i" and l: "i < length xs"
  from o obtain j where j: "i = Suc j" "even j" by (cases i) auto
  with l have "j < length xs" "j + 1 < length xs" by simp_all
  with nextLayer_nth_even [OF \<open>even j\<close>, of xs H] j
  have "nextLayer H xs ! (j div 2) = hashPair H (xs ! j) (xs ! i)" by simp
  moreover from j have "i div 2 = j div 2" by simp
  ultimately show ?thesis using j by simp
qed

lemma processProof_append:
  "processProof H (ps @ qs) c = processProof H qs (processProof H ps c)"
  by (induction ps arbitrary: c) simp_all

lemma layers_from_single: "layers_from H [a] = [[a]]"
  by (subst layers_from.simps) simp

lemma layers_from_unfold:
  "\<not> length nodes \<le> 1 \<Longrightarrow> layers_from H nodes = nodes # layers_from H (nextLayer H nodes)"
  by (subst layers_from.simps) simp

lemma layers_from_nonempty: "layers_from H nodes \<noteq> []"
  by (subst layers_from.simps) simp

lemma proof_path_verifies:
  "i < length xs \<Longrightarrow>
   processProof H (proof_path (layers_from H xs) i) (xs ! i) = hd (last (layers_from H xs))"
proof (induction H xs arbitrary: i rule: layers_from.induct)
  case (1 H nodes)
  show ?case
  proof (cases "length nodes \<le> 1")
    case True
    with "1.prems" have i0: "i = 0" and "length nodes = 1" by simp_all
    then obtain a where a: "nodes = [a]" by (cases nodes) simp_all
    with i0 show ?thesis by (simp add: layers_from_single)
  next
    case False
    have half: "i div 2 < length (nextLayer H nodes)"
      using "1.prems" by (simp add: length_nextLayer)
    have step: "processProof H (if (if odd i then i - 1 else i + 1) < length nodes
                  then [nodes ! (if odd i then i - 1 else i + 1)] else []) (nodes ! i)
                = nextLayer H nodes ! (i div 2)"
    proof (cases "odd i")
      case True
      with "1.prems" have "i - 1 < length nodes" by simp
      with True "1.prems" show ?thesis
        by (simp add: nextLayer_nth_odd hashPair_commute [of H "nodes ! i"])
    next
      case False
      with "1.prems" show ?thesis
        by (simp add: nextLayer_nth_even)
    qed
    note unfold = layers_from_unfold [OF False, of H]
    have "processProof H (proof_path (layers_from H nodes) i) (nodes ! i)
          = processProof H (proof_path (layers_from H (nextLayer H nodes)) (i div 2))
              (nextLayer H nodes ! (i div 2))"
      using step by (simp add: unfold processProof_append Let_def)
    also have "\<dots> = hd (last (layers_from H (nextLayer H nodes)))"
      by (rule "1.IH" [OF False half])
    also have "\<dots> = hd (last (layers_from H nodes))"
      by (simp add: unfold layers_from_nonempty)
    finally show ?thesis .
  qed
qed

lemma index_of_Some: "index_of x xs = Some i \<Longrightarrow> i < length xs \<and> xs ! i = x"
  by (induction xs arbitrary: i) (auto split: if_splits option.splits)

lemma index_of_mem: "x \<in> set xs \<Longrightarrow> \<exists>i. index_of x xs = Some i"
  by (induction xs) (auto split: option.splits)

lemma getProof_verifies:
  assumes "MerkleTree H ls = Inr t" and "leaf \<in> set ls"
  shows "\<exists>prf. getProof t leaf = Inr prf \<and> MerkleProof_verify H prf (getRoot t) leaf"
proof -
  from assms(1) have t: "tree_leaves t = ls" "tree_layers t = layers_from H ls"
    by (auto simp: MerkleTree_def split: if_splits)
  from index_of_mem [OF assms(2)] obtain i where i: "index_of leaf ls = Some i" ..
  from index_of_Some [OF i] have "i < length ls" "ls ! i = leaf" by simp_all
  with proof_path_verifies [of i ls H]
  have "processProof H (proof_path (layers_from H ls) i) leaf = hd (last (layers_from H ls))"
    by simp
  with i t show ?thesis
    by (simp add: getProof_def MerkleProof_verify_def getRoot_def)
qed

lemma leaves_member:
  "leaves H B wl = Inr ls \<Longrightarrow> e \<in> set wl \<Longrightarrow>
   \<exists>packed. encodeLeaf B (toLowerCase (address e)) (amount e) = Inr packed \<and> H packed \<in> set ls"
proof (induction wl arbitrary: ls)
  case Nil
  then show ?case by simp
next
  case (Cons x xs)
  from Cons.prems(1) obtain px lx where
    px: "encodeLeaf B (toLowerCase (address x)) (amount x) = Inr px"
    and lx: "leaves H B xs = Inr lx" and ls: "ls = H px # lx"
    by (auto split: sum.splits)
  show ?case
  proof (cases "e = x")
    case True
    with px ls show ?thesis by simp
  next
    case False
    with Cons.prems(2) have "e \<in> set xs" by simp
    from Cons.IH [OF lx this] ls show ?thesis by auto
  qed
qed

lemma leaves_length: "leaves H B wl = Inr ls \<Longrightarrow> length ls = length wl"
  by (induction wl arbitrary: ls) (auto split: sum.splits)

lemma find_member: "P e \<Longrightarrow> e \<in> set xs \<Longrightarrow> \<exists>y. find P xs = Some y"
  by (induction xs) auto

lemma leaves_total:
  "(\<forall>e \<in> set wl. B (amount e) \<noteq> None) \<Longrightarrow> \<exists>ls. leaves H B wl = Inr ls \<and> length ls = length wl"
  by (induction wl) (auto simp: encodeLeaf_def split: option.splits)

lemma start_server_total:
  assumes "wl \<noteq> []" and "\<forall>e \<in> set wl. B (amount e) \<noteq> None"
  shows "\<exists>srv. start_server H B wl = Inr srv"
proof -
  from leaves_total [OF assms(2), of H] obtain ls
    where "leaves H B wl = Inr ls" "length ls = length wl"
    by blast
  with assms(1) show ?thesis by (auto simp: start_server_def MerkleTree_def)
qed

lemma default_whitelist_parses:
  "\<forall>e \<in> set default_whitelist. decimal_BigInt (amount e) \<noteq> None"
  by (simp add: default_whitelist_def decimal_BigInt_def digitval_def)

lemma nextLayer_odd:
  "odd (length xs) \<Longrightarrow> nextLayer H xs = nextLayer H (butlast xs) @ [last xs]"
proof (induction H xs rule: nextLayer.induct)
  case (1 H a b rest)
  then have "rest \<noteq> []" by auto
  with 1 show ?case by simp
next
  case (2 H a)
  then show ?case by simp
next
  case (3 H)
  then show ?case by simp
qed

lemma layers_three:
  "layers_from H [a, b, c] = [[a, b, c], [hashPair H a b, c], [hashPair H (hashPair H a b) c]]"
  by (simp add: layers_from_unfold layers_from_single)

section \<open>Properties of the leaf encoding\<close>

lemma hexval_hexdigit: "d < 16 \<Longrightarrow> hexval (hexdigit d) = Some d"
  by (simp add: hexval_def hexdigit_def)

lemma hexdigit_zero: "hexdigit 0 = CHR ''0''"
  by code_simp

lemma fixed_hex_zero: "fixed_hex k 0 = replicate k (CHR ''0'')"
  by (induction k) (simp_all add: hexdigit_zero replicate_append_same)

lemma length_fixed_hex: "length (fixed_hex k n) = k"
  by (induction k arbitrary: n) simp_all

lemma hexval_fixed_hex: "c \<in> set (fixed_hex k n) \<Longrightarrow> hexval c \<noteq> None"
  by (induction k arbitrary: n) (auto simp: hexval_hexdigit)

lemma length_hex_digits: "0 < k \<Longrightarrow> n < 16 ^ k \<Longrightarrow> length (hex_digits n) \<le> k"
proof (induction k arbitrary: n)
  case 0
  then show ?case by simp
next
  case (Suc k)
  show ?case
  proof (cases "n < 16")
    case True
    then show ?thesis by (simp add: hex_digits.simps [of n])
  next
    case False
    with Suc.prems have k: "0 < k" by (cases k) simp_all
    from Suc.prems have "n div 16 < 16 ^ k"
      by (simp add: less_mult_imp_div_less mult.commute)
    from Suc.IH [OF k this] False show ?thesis by (simp add: hex_digits.simps [of n])
  qed
qed

lemma padStart_hex_digits:
  "0 < k \<Longrightarrow> n < 16 ^ k \<Longrightarrow> padStart k (CHR ''0'') (hex_digits n) = fixed_hex k n"
proof (induction k arbitrary: n)
  case 0
  then show ?case by simp
next
  case (Suc k)
  show ?case
  proof (cases "n < 16")
    case True
    then show ?thesis by (simp add: padStart_def fixed_hex_zero hex_digits.simps [of n])
  next
    case False
    with Suc.prems have k: "0 < k" by (cases k) simp_all
    from Suc.prems have small: "n div 16 < 16 ^ k"
      by (simp add: less_mult_imp_div_less mult.commute)
    from length_hex_digits [OF k small] have len: "length (hex_digits (n div 16)) \<le> k" .
    have "padStart (Suc k) (CHR ''0'') (hex_digits n)
            = padStart k (CHR ''0'') (hex_digits (n div 16)) @ [hexdigit (n mod 16)]"
      using False len by (simp add: padStart_def hex_digits.simps [of n])
    with Suc.IH [OF k small] show ?thesis by simp
  qed
qed

lemma Buffer_from_hex_append:
  "even (length xs) \<Longrightarrow> \<forall>c \<in> set xs. hexval c \<noteq> None \<Longrightarrow>
   Buffer_from_hex (xs @ ys) = Buffer_from_hex xs @ Buffer_from_hex ys"
  by (induction xs rule: Buffer_from_hex.induct) (auto split: option.splits)

lemma length_Buffer_from_hex:
  "\<forall>c \<in> set xs. hexval c \<noteq> None \<Longrightarrow> length (Buffer_from_hex xs) = length xs div 2"
  by (induction xs rule: Buffer_from_hex.induct) (auto split: option.splits)

lemma Buffer_from_fixed_hex: "Buffer_from_hex (fixed_hex (2 * k) n) = be_bytes k n"
proof (induction k arbitrary: n)
  case 0
  then show ?case by simp
next
  case (Suc k)
  have digits: "fixed_hex (2 * Suc k) n
      = fixed_hex (2 * k) (n div 256) @ [hexdigit (n div 16 mod 16), hexdigit (n mod 16)]"
    by (simp add: div_mult2_eq [symmetric])
  have "n mod (16 * 16) = 16 * (n div 16 mod 16) + n mod 16"
    by (rule mod_mult2_eq)
  then have low_byte: "16 * (n div 16 mod 16) + n mod 16 = n mod 256"
    by simp
  have "Buffer_from_hex (fixed_hex (2 * Suc k) n)
      = Buffer_from_hex (fixed_hex (2 * k) (n div 256))
        @ Buffer_from_hex [hexdigit (n div 16 mod 16), hexdigit (n mod 16)]"
    unfolding digits
    by (rule Buffer_from_hex_append) (simp_all add: length_fixed_hex hexval_fixed_hex)
  also have "\<dots> = be_bytes k (n div 256) @ [of_nat (n mod 256)]"
    by (simp add: Suc.IH hexval_hexdigit low_byte)
  finally show ?case by simp
qed

lemma amount_buffer:
  assumes "n < 2 ^ 256"
  shows "Buffer_from_hex (padStart 64 (CHR ''0'') (hex_digits n)) = be_bytes 32 n"
proof -
  have "(2::nat) ^ 256 = 16 ^ 64" by simp
  with assms have "n < 16 ^ 64" by simp
  then have "padStart 64 (CHR ''0'') (hex_digits n) = fixed_hex 64 n"
    by (intro padStart_hex_digits) simp_all
  moreover have "Buffer_from_hex (fixed_hex (2 * 32) n) = be_bytes 32 n"
    by (rule Buffer_from_fixed_hex)
  ultimately show ?thesis by simp
qed

lemma address_buffer:
  assumes "length (strip_0x addr) \<le> 40" and "\<forall>c \<in> set (strip_0x addr). hexval c \<noteq> None"
  shows "length (Buffer_from_hex (padStart 40 (CHR ''0'') (strip_0x addr))) = 20"
proof -
  have zero: "hexval (CHR ''0'') \<noteq> None" by (simp add: hexval_def)
  from assms(2) zero have "\<forall>c \<in> set (padStart 40 (CHR ''0'') (strip_0x addr)). hexval c \<noteq> None"
    by (auto simp: padStart_def)
  from length_Buffer_from_hex [OF this] assms(1) show ?thesis
    by (simp add: padStart_def)
qed

lemma dec1: "decimal_BigInt ''115792089237316195423570985008687907853269984665640564039457584007913129639936'' = Some (2 ^ 256)"
  by (simp add: decimal_BigInt_def digitval_def)

lemma hex_digits_power: "hex_digits (16 ^ k) = CHR ''1'' # replicate k (CHR ''0'')"
proof (induction k)
  case 0
  have "hexdigit (Suc 0) = CHR ''1''" by code_simp
  then show ?case by (simp add: hex_digits.simps [of "Suc 0"])
next
  case (Suc k)
  have "\<not> (16::nat) ^ Suc k < 16" by simp
  then have "hex_digits (16 ^ Suc k) = hex_digits (16 ^ k) @ [hexdigit 0]"
    by (subst hex_digits.simps) simp
  with Suc show ?case by (simp add: hexdigit_zero replicate_append_same)
qed

lemma Buffer_from_zeros: "Buffer_from_hex (replicate (2 * k + 1) (CHR ''0'')) = replicate k 0"
  by (induction k) (simp_all add: hexval_def)

lemma overflow_amount_buffer:
  "Buffer_from_hex (padStart 64 (CHR ''0'') (toString16 (2 ^ 256))) = 16 # replicate 31 0"
proof -
  have "(2::nat) ^ 256 = 16 ^ 64" by simp
  then have "hex_digits (2 ^ 256) = CHR ''1'' # replicate 64 (CHR ''0'')"
    by (simp only: hex_digits_power)
  moreover have "nat (2 ^ 256) = (2::nat) ^ 256" by simp
  ultimately have "toString16 (2 ^ 256) = CHR ''1'' # replicate 64 (CHR ''0'')"
    by (simp add: toString16_def)
  then have "padStart 64 (CHR ''0'') (toString16 (2 ^ 256))
               = CHR ''1'' # CHR ''0'' # replicate (2 * 31 + 1) (CHR ''0'')"
    by (simp add: padStart_def flip: replicate_Suc)
  then show ?thesis
    by (simp only: Buffer_from_hex.simps Buffer_from_zeros) (simp add: hexval_def)
qed

lemma be_bytes_numeral:
  "be_bytes (numeral k) n = be_bytes (pred_numeral k) (n div 256) @ [of_nat (n mod 256)]"
proof -
  have "numeral k = Suc (pred_numeral k)" by (rule numeral_eq_Suc)
  then show ?thesis by (simp only: be_bytes.simps)
qed

lemma be_bytes_one: "be_bytes 1 n = [of_nat (n mod 256)]"
  by simp

lemma lower_hexdigit: "d < 16 \<Longrightarrow> lower_char (hexdigit d) = hexdigit d"
  by (simp add: lower_char_def hexdigit_def)

lemma toLowerCase_fixed_hex: "toLowerCase (fixed_hex k n) = fixed_hex k n"
  by (induction k arbitrary: n) (simp_all add: toLowerCase_def lower_hexdigit)

text \<open>The lower-case \<open>0x\<close> form of an account decodes to the account's 20 bytes.\<close>

lemma canonical_address_decodes:
  fixes a :: eth_address
  shows "Buffer_from_hex (padStart 40 (CHR ''0'')
           (strip_0x (toLowerCase (''0x'' @ fixed_hex 40 (unat a))))) = be_bytes 20 (unat a)"
proof -
  have "toLowerCase (''0x'' @ fixed_hex 40 (unat a)) = ''0x'' @ fixed_hex 40 (unat a)"
    using toLowerCase_fixed_hex [of 40 "unat a"]
    by (simp add: toLowerCase_def lower_char_def)
  moreover have "fixed_hex 40 (unat a) \<noteq> []"
    using length_fixed_hex [of 40 "unat a"] by auto
  then have "strip_0x (''0x'' @ fixed_hex 40 (unat a)) = fixed_hex 40 (unat a)"
    by (cases "fixed_hex 40 (unat a)") simp_all
  moreover have "Buffer_from_hex (fixed_hex (2 * 20) (unat a)) = be_bytes 20 (unat a)"
    by (rule Buffer_from_fixed_hex)
  ultimately show ?thesis
    by (simp add: padStart_def length_fixed_hex)
qed

text \<open>
  When the address of an entry decodes to an account's 20 bytes and its amount parses
  to a 256-bit value, the proof server's encoding is the contract's packed encoding.
\<close>

lemma encodeLeaf_matches_contract:
  fixes a :: eth_address and v :: uint256
  assumes "Buffer_from_hex (padStart 40 (CHR ''0'') (strip_0x addr)) = be_bytes 20 (unat a)"
    and "B amt = Some (uint v)"
  shows "encodeLeaf B addr amt = Inr (abi_encodePacked a v)"
proof -
  have "unat v < 2 ^ 256"
    using unsigned_less [of v, where 'a = nat] by simp
  from amount_buffer [OF this]
  have "Buffer_from_hex (padStart 64 (CHR ''0'') (toString16 (uint v))) = be_bytes 32 (unat v)"
    by (simp add: toString16_def)
  with assms show ?thesis
    by (simp add: encodeLeaf_def abi_encodePacked_def)
qed

section \<open>Proof generation and verification\<close>

text \<open>
  Claim C1. For every whitelist on which the proof server starts, and every entry of
  it, the proof endpoint answers the entry's own address and amount with a proof, the
  leaf digest and the root of the tree, and folding that proof from the leaf with the
  sort-then-hash rule gives the root: verification succeeds. When the entry's address
  decodes to an account's 20 bytes and its amount is a 256-bit value, the contract
  deployed with that root accepts the account's claim of that amount with that proof.
\<close>

theorem proof_roundtrip:
  assumes started: "start_server H B wl = Inr srv" and mem: "e \<in> set wl"
  shows "\<exists>packed siblings.
           encodeLeaf B (toLowerCase (address e)) (amount e) = Inr packed
         \<and> get_proof H B srv (address e) (amount e)
             = ProofJson (toLowerCase (address e)) (amount e) siblings (H packed) (root srv)
         \<and> MerkleProof_verify H siblings (root srv) (H packed)
         \<and> (Buffer_from_hex (padStart 40 (CHR ''0'') (strip_0x (toLowerCase (address e))))
               = be_bytes 20 (unat a)
             \<and> B (amount e) = Some (uint v) \<longrightarrow>
             claim H (deploy d (root srv)) a v siblings
               = Inr \<lparr>merkleRoot = root srv, claimed = (\<lambda>x. x = a), owner = d,
                      emitted = [Claimed a v]\<rparr>)"
proof -
  from started obtain ls t where ls: "leaves H B wl = Inr ls"
    and t: "MerkleTree H ls = Inr t"
    and srv: "srv = \<lparr>whitelist = wl, tree = t, root = getRoot t\<rparr>"
    by (auto simp: start_server_def split: sum.splits)
  from leaves_member [OF ls mem] obtain packed where
    packed: "encodeLeaf B (toLowerCase (address e)) (amount e) = Inr packed"
    and leaf: "H packed \<in> set ls" by blast
  from getProof_verifies [OF t leaf] obtain siblings where
    gp: "getProof t (H packed) = Inr siblings"
    and ok: "MerkleProof_verify H siblings (getRoot t) (H packed)" by blast
  from find_member [of "\<lambda>x. toLowerCase (address x) = toLowerCase (address e) \<and> amount x = amount e" e wl] mem
  obtain y where y: "find (\<lambda>x. toLowerCase (address x) = toLowerCase (address e) \<and> amount x = amount e) wl = Some y"
    by auto
  have answer: "get_proof H B srv (address e) (amount e)
          = ProofJson (toLowerCase (address e)) (amount e) siblings (H packed) (root srv)"
    using y packed gp by (simp add: get_proof_def srv)
  have onchain: "Buffer_from_hex (padStart 40 (CHR ''0'') (strip_0x (toLowerCase (address e))))
               = be_bytes 20 (unat a)
             \<and> B (amount e) = Some (uint v) \<longrightarrow>
             claim H (deploy d (root srv)) a v siblings
               = Inr \<lparr>merkleRoot = root srv, claimed = (\<lambda>x. x = a), owner = d,
                      emitted = [Claimed a v]\<rparr>"
  proof
    assume wf: "Buffer_from_hex (padStart 40 (CHR ''0'') (strip_0x (toLowerCase (address e))))
               = be_bytes 20 (unat a)
             \<and> B (amount e) = Some (uint v)"
    then have "encodeLeaf B (toLowerCase (address e)) (amount e) = Inr (abi_encodePacked a v)"
      by (intro encodeLeaf_matches_contract) simp_all
    with packed have same: "packed = abi_encodePacked a v" by simp
    from ok same srv show "claim H (deploy d (root srv)) a v siblings
               = Inr \<lparr>merkleRoot = root srv, claimed = (\<lambda>x. x = a), owner = d,
                      emitted = [Claimed a v]\<rparr>"
      by (auto simp: claim_def deploy_def fun_eq_iff)
  qed
  from packed answer ok srv onchain show ?thesis by auto
qed

theorem proof_roundtrip_witness:
  "\<exists>srv packed siblings.
       start_server sample_hash decimal_BigInt default_whitelist = Inr srv
     \<and> encodeLeaf decimal_BigInt (toLowerCase ''0x3C44CdDdB6a900fa2b585dd299e03d12FA4293BC'') ''50''
         = Inr packed
     \<and> get_proof sample_hash decimal_BigInt srv ''0x3C44CdDdB6a900fa2b585dd299e03d12FA4293BC'' ''50''
         = ProofJson (toLowerCase ''0x3C44CdDdB6a900fa2b585dd299e03d12FA4293BC'') ''50''
             siblings (sample_hash packed) (root srv)
     \<and> MerkleProof_verify sample_hash siblings (root srv) (sample_hash packed)
     \<and> claim sample_hash (deploy 0 (root srv)) 0x3C44CdDdB6a900fa2b585dd299e03d12FA4293BC 50
          siblings
         = Inr \<lparr>merkleRoot = root srv,
                claimed = (\<lambda>x. x = 0x3C44CdDdB6a900fa2b585dd299e03d12FA4293BC),
                owner = 0,
                emitted = [Claimed 0x3C44CdDdB6a900fa2b585dd299e03d12FA4293BC 50]\<rparr>"
proof -
  from start_server_total [OF _ default_whitelist_parses, of sample_hash]
  obtain srv where srv: "start_server sample_hash decimal_BigInt default_whitelist = Inr srv"
    by (auto simp: default_whitelist_def)
  have mem: "\<lparr>address = ''0x3C44CdDdB6a900fa2b585dd299e03d12FA4293BC'', amount = ''50''\<rparr>
               \<in> set default_whitelist"
    by (simp add: default_whitelist_def)
  have decoded: "Buffer_from_hex (padStart 40 (CHR ''0'')
        (strip_0x (toLowerCase ''0x3C44CdDdB6a900fa2b585dd299e03d12FA4293BC'')))
      = [0x3C, 0x44, 0xCD, 0xDD, 0xB6, 0xA9, 0x00, 0xFA, 0x2B, 0x58,
         0x5D, 0xD2, 0x99, 0xE0, 0x3D, 0x12, 0xFA, 0x42, 0x93, 0xBC]"
    by code_simp
  have account: "be_bytes 20 (unat (0x3C44CdDdB6a900fa2b585dd299e03d12FA4293BC :: eth_address))
      = [0x3C, 0x44, 0xCD, 0xDD, 0xB6, 0xA9, 0x00, 0xFA, 0x2B, 0x58,
         0x5D, 0xD2, 0x99, 0xE0, 0x3D, 0x12, 0xFA, 0x42, 0x93, 0xBC]"
    by (simp add: be_bytes_numeral be_bytes_one)
  have parsed: "decimal_BigInt ''50'' = Some (uint (50 :: uint256))"
    by (simp add: decimal_BigInt_def digitval_def)
  from proof_roundtrip
         [OF srv mem, where a = "0x3C44CdDdB6a900fa2b585dd299e03d12FA4293BC" and v = 50 and d = 0]
       decoded account parsed srv
  show ?thesis by auto
qed

text \<open>
  Claim C6. For a whitelist of one entry the root is the digest of that entry's
  encoding, the proof endpoint answers with the empty proof, and the empty proof
  verifies against that root. The contract, deployed with the digest of one
  (account, amount) pair as its root, accepts that account's claim with the empty
  proof.
\<close>

theorem single_leaf_tree:
  assumes "B (amount e) = Some bn"
  shows "\<exists>srv packed.
           start_server H B [e] = Inr srv
         \<and> encodeLeaf B (toLowerCase (address e)) (amount e) = Inr packed
         \<and> root srv = H packed
         \<and> get_proof H B srv (address e) (amount e)
             = ProofJson (toLowerCase (address e)) (amount e) [] (H packed) (root srv)
         \<and> MerkleProof_verify H [] (root srv) (H packed)
         \<and> claim H (deploy d (H (abi_encodePacked a v))) a v []
             = Inr \<lparr>merkleRoot = H (abi_encodePacked a v), claimed = (\<lambda>x. x = a),
                    owner = d, emitted = [Claimed a v]\<rparr>"
proof -
  from assms obtain packed where
    packed: "encodeLeaf B (toLowerCase (address e)) (amount e) = Inr packed"
    by (simp add: encodeLeaf_def)
  define srv where
    "srv = \<lparr>whitelist = [e],
            tree = \<lparr>tree_leaves = [H packed], tree_layers = [[H packed]]\<rparr>,
            root = H packed\<rparr>"
  have started: "start_server H B [e] = Inr srv"
    using packed
    by (simp add: start_server_def MerkleTree_def layers_from_single getRoot_def srv_def)
  have answer: "get_proof H B srv (address e) (amount e)
                  = ProofJson (toLowerCase (address e)) (amount e) [] (H packed) (root srv)"
    using packed by (simp add: get_proof_def srv_def getProof_def Let_def)
  have onchain: "claim H (deploy d (H (abi_encodePacked a v))) a v []
             = Inr \<lparr>merkleRoot = H (abi_encodePacked a v), claimed = (\<lambda>x. x = a),
                    owner = d, emitted = [Claimed a v]\<rparr>"
    by (auto simp: claim_def deploy_def MerkleProof_verify_def fun_eq_iff)
  from started packed answer onchain show ?thesis
    by (auto simp: srv_def MerkleProof_verify_def)
qed

theorem single_leaf_tree_witness:
  "\<exists>srv packed.
       start_server sample_hash decimal_BigInt
         [\<lparr>address = ''0x70997970C51812dc3A010C7d01b50e0d17dc79C8'', amount = ''100''\<rparr>] = Inr srv
     \<and> encodeLeaf decimal_BigInt (toLowerCase ''0x70997970C51812dc3A010C7d01b50e0d17dc79C8'') ''100''
         = Inr packed
     \<and> root srv = sample_hash packed
     \<and> get_proof sample_hash decimal_BigInt srv ''0x70997970C51812dc3A010C7d01b50e0d17dc79C8'' ''100''
         = ProofJson (toLowerCase ''0x70997970C51812dc3A010C7d01b50e0d17dc79C8'') ''100'' []
             (sample_hash packed) (root srv)
     \<and> MerkleProof_verify sample_hash [] (root srv) (sample_hash packed)"
proof -
  have parses: "decimal_BigInt
      (amount \<lparr>address = ''0x70997970C51812dc3A010C7d01b50e0d17dc79C8'', amount = ''100''\<rparr>)
       = Some 100"
    by (simp add: decimal_BigInt_def digitval_def)
  from single_leaf_tree
         [where B = decimal_BigInt and H = sample_hash and bn = 100
            and e = "\<lparr>address = ''0x70997970C51812dc3A010C7d01b50e0d17dc79C8'', amount = ''100''\<rparr>",
          OF parses]
  show ?thesis
    by simp blast
qed

text \<open>
  Claim C7. A level with an odd number of nodes passes its last node on unchanged:
  the next level is the next level of the paired nodes followed by that node, one
  node longer, and the proof path of that node takes no sibling at this level. For any
  three leaves the root is the pair of the first two paired with the third, the third
  leaf's path is the single digest of the first two, and every leaf's own proof
  verifies against the root.
\<close>

theorem odd_level_carry:
  "(odd (length xs) \<longrightarrow>
      nextLayer H xs = nextLayer H (butlast xs) @ [last xs]
    \<and> length (nextLayer H xs) = length (nextLayer H (butlast xs)) + 1
    \<and> proof_path (xs # upper) (length xs - 1) = proof_path upper ((length xs - 1) div 2))
   \<and> (\<exists>t. MerkleTree H [a, b, c] = Inr t
        \<and> tree_layers t = [[a, b, c], [hashPair H a b, c], [hashPair H (hashPair H a b) c]]
        \<and> getRoot t = hashPair H (hashPair H a b) c
        \<and> proof_path (tree_layers t) 2 = [hashPair H a b]
        \<and> (\<forall>leaf \<in> set [a, b, c].
              \<exists>siblings. getProof t leaf = Inr siblings
                \<and> MerkleProof_verify H siblings (getRoot t) leaf))"
proof -
  have carry: "odd (length xs) \<longrightarrow>
      nextLayer H xs = nextLayer H (butlast xs) @ [last xs]
    \<and> length (nextLayer H xs) = length (nextLayer H (butlast xs)) + 1
    \<and> proof_path (xs # upper) (length xs - 1) = proof_path upper ((length xs - 1) div 2)"
  proof
    assume o: "odd (length xs)"
    then have e: "even (length xs - 1)" by simp
    from o have "nextLayer H xs = nextLayer H (butlast xs) @ [last xs]"
      by (rule nextLayer_odd)
    moreover from this have "length (nextLayer H xs) = length (nextLayer H (butlast xs)) + 1"
      by simp
    moreover from o e have
      "proof_path (xs # upper) (length xs - 1) = proof_path upper ((length xs - 1) div 2)"
      by (cases xs) (simp_all add: Let_def)
    ultimately show "nextLayer H xs = nextLayer H (butlast xs) @ [last xs]
      \<and> length (nextLayer H xs) = length (nextLayer H (butlast xs)) + 1
      \<and> proof_path (xs # upper) (length xs - 1) = proof_path upper ((length xs - 1) div 2)"
      by blast
  qed
  define t where "t = \<lparr>tree_leaves = [a, b, c], tree_layers = layers_from H [a, b, c]\<rparr>"
  have built: "MerkleTree H [a, b, c] = Inr t"
    by (simp add: MerkleTree_def t_def)
  have lay: "tree_layers t = [[a, b, c], [hashPair H a b, c], [hashPair H (hashPair H a b) c]]"
    by (simp add: t_def layers_three)
  have rt: "getRoot t = hashPair H (hashPair H a b) c"
    by (simp add: getRoot_def lay)
  have path: "proof_path (tree_layers t) 2 = [hashPair H a b]"
    by (simp add: lay Let_def)
  have all: "\<forall>leaf \<in> set [a, b, c].
              \<exists>siblings. getProof t leaf = Inr siblings
                \<and> MerkleProof_verify H siblings (getRoot t) leaf"
    using getProof_verifies [OF built] by blast
  from carry built lay rt path all show ?thesis by blast
qed

theorem odd_level_carry_witness:
  "odd (length [[1], [2], [3 :: byte]])
   \<and> nextLayer sample_hash [[1], [2], [3]] = nextLayer sample_hash (butlast [[1], [2], [3]]) @ [last [[1], [2], [3]]]
   \<and> (\<exists>t. MerkleTree sample_hash [[1], [2], [3]] = Inr t
        \<and> getRoot t = hashPair sample_hash (hashPair sample_hash [1] [2]) [3]
        \<and> (\<forall>leaf \<in> set [[1], [2], [3]].
              \<exists>siblings. getProof t leaf = Inr siblings
                \<and> MerkleProof_verify sample_hash siblings (getRoot t) leaf))"
proof -
  have o: "odd (length [[1], [2], [3 :: byte]])" by simp
  from odd_level_carry [of "[[1], [2], [3]]" sample_hash "[]" "[1]" "[2]" "[3]"] o
  show ?thesis by blast
qed

text \<open>
  Claim C8. Building the tree over no leaves fails with \<open>EmptyTree\<close>, and so does
  starting the proof server on an empty whitelist.
\<close>

theorem empty_tree:
  "MerkleTree H [] = Inl EmptyTree \<and> start_server H B [] = Inl EmptyTree"
  by (simp add: MerkleTree_def start_server_def)

theorem empty_tree_witness:
  "MerkleTree sample_hash [] = Inl EmptyTree
   \<and> start_server sample_hash decimal_BigInt [] = Inl EmptyTree"
  using empty_tree [of sample_hash decimal_BigInt] by simp

section \<open>The enforcement point\<close>

lemma events_of_append: "events_of a (xs @ ys) = events_of a xs @ events_of a ys"
  by (induction a xs rule: events_of.induct) simp_all

lemma call_keeps_claimed: "call H c t = Inr c' \<Longrightarrow> claimed c a \<Longrightarrow> claimed c' a"
  by (cases t) (auto simp: claim_def setMerkleRoot_def Let_def split: if_splits)

lemma execute_keeps_claimed: "claimed c a \<Longrightarrow> claimed (execute H c txs) a"
proof (induction txs arbitrary: c)
  case Nil
  then show ?case by simp
next
  case (Cons t ts)
  show ?case
  proof (cases "call H c t")
    case (Inl msg)
    with Cons show ?thesis by simp
  next
    case (Inr c')
    from Inr Cons.prems have "claimed c' a" by (rule call_keeps_claimed)
    with Cons.IH Inr show ?thesis by simp
  qed
qed

lemma call_one_event:
  "\<forall>a. length (events_of a (emitted c)) = (if claimed c a then 1 else 0) \<Longrightarrow>
   call H c t = Inr c' \<Longrightarrow>
   \<forall>a. length (events_of a (emitted c')) = (if claimed c' a then 1 else 0)"
  by (cases t)
     (auto simp: claim_def setMerkleRoot_def Let_def events_of_append split: if_splits)

lemma execute_one_event:
  "\<forall>a. length (events_of a (emitted c)) = (if claimed c a then 1 else 0) \<Longrightarrow>
   \<forall>a. length (events_of a (emitted (execute H c txs)))
        = (if claimed (execute H c txs) a then 1 else 0)"
proof (induction txs arbitrary: c)
  case Nil
  then show ?case by simp
next
  case (Cons t ts)
  show ?case
  proof (cases "call H c t")
    case (Inl msg)
    with Cons show ?thesis by simp
  next
    case (Inr c')
    with Cons.prems
    have "\<forall>a. length (events_of a (emitted c')) = (if claimed c' a then 1 else 0)"
      by (rule call_one_event)
    from Cons.IH [OF this] Inr show ?thesis by simp
  qed
qed

lemma deploy_one_event:
  "\<forall>a. length (events_of a (emitted (deploy d r))) = (if claimed (deploy d r) a then 1 else 0)"
  by (simp add: deploy_def)

text \<open>
  Claim C2. A successful claim finds the account's flag unset, sets it and appends
  \<open>Claimed(account, amount)\<close> to the log; from then on, whatever transactions are
  executed in between, every claim by that account reverts with "Already claimed". A
  set flag stays set through every sequence of transactions, and in every history of
  the contract since deployment the log holds at most one \<open>Claimed\<close> event per account.
\<close>

theorem claim_at_most_once:
  "(claim H c a v p = Inr c' \<longrightarrow>
       \<not> claimed c a \<and> claimed c' a \<and> emitted c' = emitted c @ [Claimed a v]
     \<and> claim H (execute H c' txs) a v' p' = Inl ''Already claimed'')
   \<and> (claimed c a \<longrightarrow>
         claim H c a v' p' = Inl ''Already claimed'' \<and> claimed (execute H c txs) a)
   \<and> length (events_of a (emitted (execute H (deploy d r) txs))) \<le> 1"
proof -
  have first: "claim H c a v p = Inr c' \<longrightarrow>
       \<not> claimed c a \<and> claimed c' a \<and> emitted c' = emitted c @ [Claimed a v]
     \<and> claim H (execute H c' txs) a v' p' = Inl ''Already claimed''"
  proof
    assume ok: "claim H c a v p = Inr c'"
    then have now: "\<not> claimed c a" "claimed c' a" "emitted c' = emitted c @ [Claimed a v]"
      by (auto simp: claim_def Let_def split: if_splits)
    from now(2) have "claimed (execute H c' txs) a" by (rule execute_keeps_claimed)
    then have "claim H (execute H c' txs) a v' p' = Inl ''Already claimed''"
      by (simp add: claim_def)
    with now show "\<not> claimed c a \<and> claimed c' a \<and> emitted c' = emitted c @ [Claimed a v]
     \<and> claim H (execute H c' txs) a v' p' = Inl ''Already claimed''" by simp
  qed
  have later: "claimed c a \<longrightarrow>
         claim H c a v' p' = Inl ''Already claimed'' \<and> claimed (execute H c txs) a"
    by (simp add: claim_def execute_keeps_claimed)
  have "\<forall>x. length (events_of x (emitted (execute H (deploy d r) txs)))
          = (if claimed (execute H (deploy d r) txs) x then 1 else 0)"
    by (rule execute_one_event [OF deploy_one_event])
  then have count: "length (events_of a (emitted (execute H (deploy d r) txs))) \<le> 1"
    by simp
  from first later count show ?thesis by blast
qed

theorem claim_at_most_once_witness:
  "claim sample_hash (deploy 0 (sample_hash (abi_encodePacked 1 100))) 1 100 []
     = Inr \<lparr>merkleRoot = sample_hash (abi_encodePacked 1 100),
            claimed = (\<lambda>x. False)(1 := True), owner = 0, emitted = [Claimed 1 100]\<rparr>
   \<and> claim sample_hash
        (execute sample_hash
           \<lparr>merkleRoot = sample_hash (abi_encodePacked 1 100),
            claimed = (\<lambda>x. False)(1 := True), owner = 0, emitted = [Claimed 1 100]\<rparr>
           [SetMerkleRoot 0 [], Claim 1 100 []])
        1 100 []
     = Inl ''Already claimed''
   \<and> length (events_of 1 (emitted (execute sample_hash
        (deploy 0 (sample_hash (abi_encodePacked 1 100)))
        [Claim 1 100 [], Claim 1 100 []]))) \<le> 1"
proof -
  have first: "claim sample_hash (deploy 0 (sample_hash (abi_encodePacked 1 100))) 1 100 []
     = Inr \<lparr>merkleRoot = sample_hash (abi_encodePacked 1 100),
            claimed = (\<lambda>x. False)(1 := True), owner = 0, emitted = [Claimed 1 100]\<rparr>"
    by (simp add: claim_def deploy_def MerkleProof_verify_def)
  from first
    claim_at_most_once
      [where H = sample_hash and c = "deploy 0 (sample_hash (abi_encodePacked 1 100))"
         and a = 1 and v = 100 and p = "[]" and v' = 100 and p' = "[]"
         and txs = "[SetMerkleRoot 0 [], Claim 1 100 []]"
         and c' = "\<lparr>merkleRoot = sample_hash (abi_encodePacked 1 100),
            claimed = (\<lambda>x. False)(1 := True), owner = 0, emitted = [Claimed 1 100]\<rparr>"]
    claim_at_most_once
      [where H = sample_hash and a = 1 and d = 0
         and r = "sample_hash (abi_encodePacked 1 100)"
         and txs = "[Claim 1 100 [], Claim 1 100 []]"]
  show ?thesis by blast
qed

section \<open>Leaf encoding: the claim\<close>

text \<open>
  Claim C9, as the encoder behaves. The encoder never fails with \<open>AmountOverflow\<close>:
  its only failure is the \<open>SyntaxError\<close> of \<open>BigInt\<close> on an amount that is not an
  integer. For an amount in the range of a 32-byte unsigned integer the result is the
  identity bytes followed by the 32-byte big-endian amount, and the identity part has
  20 bytes when the address, without its \<open>0x\<close>, is at most 40 hexadecimal digits.
\<close>

theorem encodeLeaf_in_range:
  "encodeLeaf BigInt addr amt \<noteq> Inl AmountOverflow
   \<and> (encodeLeaf BigInt addr amt = Inl SyntaxError \<longleftrightarrow> BigInt amt = None)
   \<and> (BigInt amt = Some bn \<and> 0 \<le> bn \<and> bn < 2 ^ 256 \<longrightarrow>
        encodeLeaf BigInt addr amt
          = Inr (Buffer_from_hex (padStart 40 (CHR ''0'') (strip_0x addr)) @ be_bytes 32 (nat bn))
      \<and> length (be_bytes 32 (nat bn)) = 32)
   \<and> (length (strip_0x addr) \<le> 40 \<and> (\<forall>c \<in> set (strip_0x addr). hexval c \<noteq> None) \<longrightarrow>
        length (Buffer_from_hex (padStart 40 (CHR ''0'') (strip_0x addr))) = 20)"
proof -
  have never: "encodeLeaf BigInt addr amt \<noteq> Inl AmountOverflow"
    by (simp add: encodeLeaf_def Let_def split: option.splits)
  have parse_error: "encodeLeaf BigInt addr amt = Inl SyntaxError \<longleftrightarrow> BigInt amt = None"
    by (simp add: encodeLeaf_def Let_def split: option.splits)
  have len: "length (be_bytes k n) = k" for k n
    by (induction k arbitrary: n) simp_all
  have inrange: "BigInt amt = Some bn \<and> 0 \<le> bn \<and> bn < 2 ^ 256 \<longrightarrow>
        encodeLeaf BigInt addr amt
          = Inr (Buffer_from_hex (padStart 40 (CHR ''0'') (strip_0x addr)) @ be_bytes 32 (nat bn))
      \<and> length (be_bytes 32 (nat bn)) = 32"
  proof
    assume a: "BigInt amt = Some bn \<and> 0 \<le> bn \<and> bn < 2 ^ 256"
    then have "nat bn < 2 ^ 256" by (simp add: nat_less_iff)
    from amount_buffer [OF this] a
    show "encodeLeaf BigInt addr amt
          = Inr (Buffer_from_hex (padStart 40 (CHR ''0'') (strip_0x addr)) @ be_bytes 32 (nat bn))
      \<and> length (be_bytes 32 (nat bn)) = 32"
      by (simp add: encodeLeaf_def toString16_def len)
  qed
  have ident: "length (strip_0x addr) \<le> 40 \<and> (\<forall>c \<in> set (strip_0x addr). hexval c \<noteq> None) \<longrightarrow>
        length (Buffer_from_hex (padStart 40 (CHR ''0'') (strip_0x addr))) = 20"
    using address_buffer by blast
  from never parse_error inrange ident show ?thesis by blast
qed

theorem encodeLeaf_in_range_witness:
  "decimal_BigInt ''100'' = Some 100
   \<and> encodeLeaf decimal_BigInt ''0x70997970c51812dc3a010c7d01b50e0d17dc79c8'' ''100''
       = Inr (Buffer_from_hex (padStart 40 (CHR ''0'')
                (strip_0x ''0x70997970c51812dc3a010c7d01b50e0d17dc79c8'')) @ be_bytes 32 100)
   \<and> length (Buffer_from_hex (padStart 40 (CHR ''0'')
                (strip_0x ''0x70997970c51812dc3a010c7d01b50e0d17dc79c8''))) = 20"
proof -
  have parses: "decimal_BigInt ''100'' = Some 100"
    by (simp add: decimal_BigInt_def digitval_def)
  have wellformed:
    "length (strip_0x ''0x70997970c51812dc3a010c7d01b50e0d17dc79c8'') \<le> 40
     \<and> (\<forall>c \<in> set (strip_0x ''0x70997970c51812dc3a010c7d01b50e0d17dc79c8''). hexval c \<noteq> None)"
    by (simp add: hexval_def)
  from parses wellformed
    encodeLeaf_in_range
      [where BigInt = decimal_BigInt and amt = "''100''" and bn = 100
         and addr = "''0x70997970c51812dc3a010c7d01b50e0d17dc79c8''"]
  show ?thesis by simp
qed

text \<open>
  The claim as it is stated fails at the amount \<open>2 ^ 256\<close>, one more than the largest
  32-byte unsigned integer: the encoder returns a record, whose amount part is the
  first 64 of the 65 hexadecimal digits.
\<close>

theorem encodeLeaf_overflow_counterexample:
  "decimal_BigInt
     ''115792089237316195423570985008687907853269984665640564039457584007913129639936''
     = Some (2 ^ 256)
   \<and> encodeLeaf decimal_BigInt ''0x70997970c51812dc3a010c7d01b50e0d17dc79c8''
       ''115792089237316195423570985008687907853269984665640564039457584007913129639936''
     = Inr (Buffer_from_hex (padStart 40 (CHR ''0'')
              (strip_0x ''0x70997970c51812dc3a010c7d01b50e0d17dc79c8''))
            @ 16 # replicate 31 0)"
  by (simp only: dec1 encodeLeaf_def Let_def option.case overflow_amount_buffer simp_thms)

section \<open>The relay pipeline\<close>

text \<open>
  The handler run from request to answer is the sequence of its stretches with nothing
  in between.
\<close>

lemma uninterrupted_relay_claim:
  "uninterrupted w st body
     = (state (relay_claim w st body), Some (response (relay_claim w st body)))"
  by (auto simp: uninterrupted_def arrive_def relay_claim_def answered_def caught_def reject_def
        catch_block_def Let_def
      split: sum.splits bool.splits proof_data.splits)



lemma sample_local_checks_boundary:
  "local_checks_pass world_boundary fresh_relayer sample_request"
  by (simp add: world_boundary_def sample_world_def sample_request_def fresh_relayer_def
        number_gt_def verifySignature_def)

lemma boundary_run:
  "relay_claim world_boundary fresh_relayer sample_request
     = \<lparr>response = Success ''0xtx1'',
        state = \<lparr>usedNonces = {JNum 7},
                 pendingTxs = [''0xtx1'' \<mapsto>
                   \<lparr>pending_recipient = JStr ''0x70997970c51812dc3a010c7d01b50e0d17dc79c8'',
                    pending_amount = JStr ''100'',
                    pending_timestamp = 1700000000600\<rparr>]\<rparr>,
        steps = [ValidateFields, CheckDeadline, CheckNonce, VerifySignature, CheckClaimed,
                 GetProof, MarkNonce, SubmitTransaction, StorePending],
        waiting = Some (''0xtx1'', JNum 7)\<rparr>"
  using sample_local_checks_boundary
  by (simp add: relay_claim_def)
     (simp add: world_boundary_def sample_world_def getProofFromServer_def sample_request_def
        fresh_relayer_def)

lemma relay_claim_waiting:
  "waiting (relay_claim w st body) = Some held \<Longrightarrow>
     snd held = nonce body \<and> nonce body \<notin> usedNonces st
   \<and> usedNonces (state (relay_claim w st body)) = insert (nonce body) (usedNonces st)
   \<and> response (relay_claim w st body) = Success (fst held)"
  by (auto simp: relay_claim_def reject_def catch_block_def Let_def
           split: if_splits sum.splits bool.splits proof_data.splits)

lemma verifySignature_frame:
  "verifySignature (w\<lparr>contract_claim := f\<rparr>) m sg a = verifySignature w m sg a"
  by (simp add: verifySignature_def split: option.splits)

lemma getProofFromServer_frame:
  "getProofFromServer (w\<lparr>contract_claim := f\<rparr>) a v = getProofFromServer w a v"
  by (simp add: getProofFromServer_def)

text \<open>
  When the submission throws after the nonce was marked, the catch block takes the
  nonce out of the used set, and the same request, sent again when the submission
  works, is submitted.
\<close>

lemma submit_failure_releases:
  assumes "MarkNonce \<in> set (steps (relay_claim w st body))"
    and "waiting (relay_claim w st body) = None"
  shows "nonce body \<notin> usedNonces (state (relay_claim w st body))
       \<and> pendingTxs (state (relay_claim w st body)) = pendingTxs st
       \<and> (\<exists>msg. response (relay_claim w st body) = Status500 ''Failed to relay transaction'' msg)
       \<and> response (relay_claim (w\<lparr>contract_claim := (\<lambda>amt prf. Inr h)\<rparr>)
            (state (relay_claim w st body)) body) = Success h"
  using assms
  by (auto simp: relay_claim_def reject_def catch_block_def Let_def verifySignature_frame
        getProofFromServer_frame
      split: if_splits sum.splits bool.splits proof_data.splits)

lemma response_reads_nonces_only:
  "usedNonces st1 = usedNonces st2 \<Longrightarrow>
   response (relay_claim w st1 body) = response (relay_claim w st2 body)"
  by (auto simp: relay_claim_def reject_def catch_block_def Let_def
      split: sum.splits bool.splits proof_data.splits)

text \<open>
  When a submitted transaction fails, its callback takes the nonce out of the used set
  and the same request is submitted again; when it is confirmed, the callback leaves
  the nonce in the set.
\<close>

lemma transaction_failure_releases:
  assumes "waiting (relay_claim w st body) = Some held"
  shows "nonce body \<in> usedNonces (state (relay_claim w st body))
       \<and> nonce body \<in> usedNonces (tx_confirmed (state (relay_claim w st body)) held)
       \<and> nonce body \<notin> usedNonces (tx_failed (state (relay_claim w st body)) held)
       \<and> response (relay_claim w (tx_failed (state (relay_claim w st body)) held) body)
           = Success (fst held)"
proof -
  note facts = relay_claim_waiting [OF assms]
  from facts have restored:
    "usedNonces (tx_failed (state (relay_claim w st body)) held) = usedNonces st"
    by (auto simp: tx_failed_def)
  have "response (relay_claim w (tx_failed (state (relay_claim w st body)) held) body)
          = response (relay_claim w st body)"
    by (rule response_reads_nonces_only [OF restored])
  with facts restored show ?thesis
    by (simp add: tx_confirmed_def)
qed

lemma run_append: "run s (es @ fs) = run (run s es) fs"
  by (induction es arbitrary: s) simp_all

lemmas relay_evaluation =
  arrive_def answered_def caught_def catch_block_def getProofFromServer_def number_gt_def
  verifySignature_def tx_confirmed_def tx_failed_def
  sample_world_def world_second_def world_already_claimed_def
  sample_request_def malformed_request_def fresh_relayer_def service_start_def

lemma confirmed_history_run:
  "run service_start confirmed_history
     = \<lparr>relay = \<lparr>usedNonces = {JNum 7}, pendingTxs = Map.empty\<rparr>,
        handlers = [], replies = [Success ''0xtx1'']\<rparr>"
  by (simp add: confirmed_history_def relay_evaluation)

lemma double_history_run:
  "relay (run service_start double_history)
     = \<lparr>usedNonces = {JNum 7},
        pendingTxs = [''0xtx1'' \<mapsto>
                   \<lparr>pending_recipient = JStr ''0x70997970c51812dc3a010c7d01b50e0d17dc79c8'',
                    pending_amount = JStr ''100'',
                    pending_timestamp = 1700000000600\<rparr>,
                   ''0xtx2'' \<mapsto>
                   \<lparr>pending_recipient = JStr ''0x70997970c51812dc3a010c7d01b50e0d17dc79c8'',
                    pending_amount = JStr ''100'',
                    pending_timestamp = 1700000000600\<rparr>]\<rparr>
   \<and> replies (run service_start double_history) = [Success ''0xtx1'', Success ''0xtx2'']
   \<and> handlers (run service_start double_history)
       = [\<lparr>handler_world = sample_world, handler_body = sample_request,
            handler_at = AwaitReceipt ''0xtx1''\<rparr>,
          \<lparr>handler_world = world_second, handler_body = sample_request,
            handler_at = AwaitReceipt ''0xtx2''\<rparr>]"
  by (simp add: double_history_def relay_evaluation)

text \<open>
  Claim C10. A request in which one of the five fields is absent, \<open>null\<close>, \<open>false\<close>,
  the number 0 or the empty string is answered with status 400 and the message about
  missing fields; only the field validation has run, and the nonce set and the pending
  transactions are as before.
\<close>

theorem missing_fields_rejected:
  assumes "f \<in> {recipient, claim_amount, nonce, deadline, signature}"
    and "f body \<in> {JUndefined, JNull, JBool False, JNum 0, JStr []}"
  shows "relay_claim w st body =
           \<lparr>response = Status400
              ''Missing required fields: recipient, amount, nonce, deadline, signature'',
            state = st, steps = [ValidateFields], waiting = None\<rparr>"
proof -
  from assms(2) have "\<not> truthy (f body)" by auto
  with assms(1) have "\<not> truthy (recipient body) \<or> \<not> truthy (claim_amount body)
      \<or> \<not> truthy (nonce body) \<or> \<not> truthy (deadline body) \<or> \<not> truthy (signature body)"
    by auto
  then show ?thesis by (simp add: relay_claim_def reject_def)
qed

theorem missing_fields_rejected_witness:
  "relay_claim sample_world fresh_relayer (sample_request\<lparr>nonce := JNum 0\<rparr>) =
     \<lparr>response = Status400
        ''Missing required fields: recipient, amount, nonce, deadline, signature'',
      state = fresh_relayer, steps = [ValidateFields], waiting = None\<rparr>"
  using missing_fields_rejected [of nonce "sample_request\<lparr>nonce := JNum 0\<rparr>" sample_world fresh_relayer]
  by simp

text \<open>
  Claim C5, as the handler's clock decides it. The clock counts whole seconds. A
  request that has all its fields and whose deadline is below the clock, that is, at
  least one whole second in the past, is answered with status 400 "Request expired"
  after the field validation and the deadline check only; the nonce set and the pending
  transactions are as before, and no transaction is awaited.
\<close>

theorem expired_rejected:
  assumes "truthy (recipient body)" "truthy (claim_amount body)" "truthy (nonce body)"
    "truthy (deadline body)" "truthy (signature body)"
    and "ToNumber (NumberToString w) (StringToNumber w) (deadline body) = Inr (Some d)"
    and "d < Date_now w div 1000"
  shows "relay_claim w st body =
           \<lparr>response = Status400 ''Request expired'', state = st,
            steps = [ValidateFields, CheckDeadline], waiting = None\<rparr>"
  using assms by (simp add: relay_claim_def reject_def number_gt_def)

theorem expired_rejected_witness:
  "fields_present sample_request
   \<and> ToNumber (NumberToString world_expired) (StringToNumber world_expired)
         (deadline sample_request) = Inr (Some 1700003600)
   \<and> 1700003600 < Date_now world_expired div 1000
   \<and> relay_claim world_expired fresh_relayer sample_request =
       \<lparr>response = Status400 ''Request expired'', state = fresh_relayer,
        steps = [ValidateFields, CheckDeadline], waiting = None\<rparr>"
proof -
  have shape: "truthy (recipient sample_request)" "truthy (claim_amount sample_request)"
    "truthy (nonce sample_request)" "truthy (deadline sample_request)"
    "truthy (signature sample_request)"
    by (simp_all add: sample_request_def)
  have number: "ToNumber (NumberToString world_expired) (StringToNumber world_expired)
                  (deadline sample_request) = Inr (Some 1700003600)"
    by (simp add: sample_request_def)
  have past: "1700003600 < Date_now world_expired div 1000"
    by (simp add: world_expired_def sample_world_def)
  from expired_rejected [OF shape number past, of fresh_relayer] shape number past
  show ?thesis by simp
qed

text \<open>
  The claim as it is stated fails in two ways. A deadline 999 milliseconds in the past
  is not below the clock: the request is relayed, its nonce is in the used set and a
  pending entry exists. And a request whose deadline is an hour in the past but whose
  nonce is 0 is answered "Missing required fields", not "Request expired".
\<close>

theorem expired_rejected_counterexample:
  "deadline sample_request = JNum 1700003600
   \<and> 1700003600 * 1000 < Date_now world_boundary
   \<and> response (relay_claim world_boundary fresh_relayer sample_request) = Success ''0xtx1''
   \<and> JNum 7 \<in> usedNonces (state (relay_claim world_boundary fresh_relayer sample_request))
   \<and> pendingTxs (state (relay_claim world_boundary fresh_relayer sample_request)) ''0xtx1''
       \<noteq> None
   \<and> deadline (sample_request\<lparr>nonce := JNum 0\<rparr>) = JNum 1700003600
   \<and> 1700003600 < Date_now world_expired div 1000
   \<and> response (relay_claim world_expired fresh_relayer (sample_request\<lparr>nonce := JNum 0\<rparr>))
       = Status400 ''Missing required fields: recipient, amount, nonce, deadline, signature''"
proof -
  have a: "deadline sample_request = JNum 1700003600"
    "deadline (sample_request\<lparr>nonce := JNum 0\<rparr>) = JNum 1700003600"
    by (simp_all add: sample_request_def)
  have b: "1700003600 * 1000 < Date_now world_boundary"
    "1700003600 < Date_now world_expired div 1000"
    by (simp_all add: world_boundary_def world_expired_def sample_world_def)
  have c: "response (relay_claim world_expired fresh_relayer (sample_request\<lparr>nonce := JNum 0\<rparr>))
       = Status400 ''Missing required fields: recipient, amount, nonce, deadline, signature''"
    by (simp add: relay_claim_def reject_def)
  from a b c show ?thesis by (simp add: boundary_run)
qed




text \<open>
  Claim C3. The claim holds that a nonce whose transaction was confirmed is consumed
  for good. The handler releases such a nonce in two histories. In the first the
  request is handled, its transaction is confirmed and a repetition is answered "Nonce
  already used"; then a request with the same nonce and a deadline that has no
  primitive value throws in the deadline check, the catch block deletes the nonce
  although this request never added it, and the first request, sent again, passes the
  nonce check. In the second the same request arrives twice before either handler has
  marked the nonce: both handlers submit, and when the first transaction is confirmed
  and the second fails, the failure callback deletes the nonce of the confirmed one.
\<close>

theorem consumed_nonce_released:
  "replies (run service_start confirmed_history) = [Success ''0xtx1'']
   \<and> handlers (run service_start confirmed_history) = []
   \<and> usedNonces (relay (run service_start confirmed_history)) = {JNum 7}
   \<and> replies (run service_start (confirmed_history @ [Arrive sample_world sample_request]))
       = [Success ''0xtx1'', Status400 ''Nonce already used'']
   \<and> replies (run service_start (confirmed_history @ [Arrive sample_world malformed_request]))
       = [Success ''0xtx1'',
          Status500 ''Failed to relay transaction'' ''Cannot convert object to primitive value'']
   \<and> usedNonces (relay (run service_start
         (confirmed_history @ [Arrive sample_world malformed_request]))) = {}
   \<and> replies (run service_start
         (confirmed_history @ [Arrive sample_world malformed_request,
                               Arrive world_already_claimed sample_request, Resume 0]))
       = [Success ''0xtx1'',
          Status500 ''Failed to relay transaction'' ''Cannot convert object to primitive value'',
          Status400 ''Already claimed'']
   \<and> replies (run service_start double_history) = [Success ''0xtx1'', Success ''0xtx2'']
   \<and> usedNonces (relay (run service_start double_history)) = {JNum 7}
   \<and> usedNonces (relay (run service_start (double_history @ [Resume 0, Resume 0]))) = {}"
proof -
  have a: "replies (run service_start (confirmed_history @ [Arrive sample_world sample_request]))
       = [Success ''0xtx1'', Status400 ''Nonce already used'']"
    by (simp add: run_append confirmed_history_run) (simp add: relay_evaluation)
  have b: "run service_start (confirmed_history @ [Arrive sample_world malformed_request])
       = \<lparr>relay = \<lparr>usedNonces = {}, pendingTxs = Map.empty\<rparr>, handlers = [],
          replies = [Success ''0xtx1'',
            Status500 ''Failed to relay transaction''
              ''Cannot convert object to primitive value'']\<rparr>"
    by (simp add: run_append confirmed_history_run) (simp add: relay_evaluation)
  have c: "replies (run service_start
         (confirmed_history @ [Arrive sample_world malformed_request,
                               Arrive world_already_claimed sample_request, Resume 0]))
       = [Success ''0xtx1'',
          Status500 ''Failed to relay transaction'' ''Cannot convert object to primitive value'',
          Status400 ''Already claimed'']"
    using b
    by (simp add: run_append [of _ "confirmed_history @ [Arrive sample_world malformed_request]"
                                 "[Arrive world_already_claimed sample_request, Resume 0]",
                              simplified])
       (simp add: relay_evaluation)
  have d: "usedNonces (relay (run service_start (double_history @ [Resume 0, Resume 0]))) = {}"
    using double_history_run
    by (simp add: run_append) (simp add: relay_evaluation)
  from a b c d show ?thesis
    by (simp add: confirmed_history_run double_history_run)
qed

end
